theory Spec2Isabelle
  imports Main "HOL-Library.Multiset"
begin

section \<open>Values exchanged between the program, the runtime and SQLite\<close>

text \<open>
  The account store (class \<open>Database\<close>) keeps \<open>User\<close> objects in one SQLite table.
  Strings are byte strings (the UTF-8 text SQLite stores and compares).
  A textual property of a JavaScript object is a string, \<open>null\<close> or \<open>undefined\<close>.
\<close>

datatype jsval = Undefined | Null | Str string

text \<open>A cell of the table, and a bound statement parameter: NULL, INTEGER or TEXT.\<close>

datatype sqlval = SNull | SInt int | SText string

text \<open>A JavaScript \<open>Date\<close>: a time value in milliseconds since the epoch, or Invalid Date.\<close>

datatype Date = TimeValue int | Invalid_Date

text \<open>A JavaScript number (IEEE double); the program never computes with one.\<close>

typedecl number

datatype error =
    Initialization_failed   \<comment> \<open>the \<open>Error\<close> thrown by \<open>_doInitialize\<close>\<close>
  | SQLITE_CONSTRAINT       \<comment> \<open>a statement rejected by a table constraint\<close>
  | SQLITE_ERROR            \<comment> \<open>a statement that fails for another reason\<close>
  | RangeError              \<comment> \<open>\<open>toISOString\<close> of an Invalid Date\<close>
  | SyntaxError             \<comment> \<open>\<open>JSON.parse\<close> of malformed text\<close>

record collegeData =
  department :: string
  courses :: "string list"
  academicYear :: string
  semester :: string
  advisor :: "string option"
  gpa :: "number option"

text \<open>
  \<open>interface User\<close>. The textual properties are \<open>jsval\<close>, because the objects read back
  from the table carry \<open>null\<close>; \<open>User_ok\<close> below is the TypeScript interface as a
  predicate. An optional \<open>Date\<close> or \<open>collegeData\<close> is \<open>None\<close> when \<open>undefined\<close>.
\<close>

record User =
  id' :: jsval
  fullName :: jsval
  universityEmail :: jsval
  password :: jsval
  phoneNumber :: jsval
  universityName :: jsval
  universityId :: jsval
  program :: jsval
  yearOfStudy :: jsval
  createdAt :: Date
  isEmailVerified :: bool
  verificationToken :: jsval
  verificationTokenExpiry :: "Date option"
  collegeData :: "collegeData option"

definition is_string :: "jsval \<Rightarrow> bool" where
  "is_string v = (case v of Str s \<Rightarrow> True | _ \<Rightarrow> False)"

definition is_optional_string :: "jsval \<Rightarrow> bool" where
  "is_optional_string v = (case v of Str s \<Rightarrow> True | Undefined \<Rightarrow> True | Null \<Rightarrow> False)"

text \<open>The time values a valid \<open>Date\<close> can hold (ECMA-262, time range).\<close>

definition time_in_range :: "int \<Rightarrow> bool" where
  "time_in_range t = (- 8640000000000000 \<le> t \<and> t \<le> 8640000000000000)"

definition Date_ok :: "Date \<Rightarrow> bool" where
  "Date_ok d = (case d of TimeValue t \<Rightarrow> time_in_range t | Invalid_Date \<Rightarrow> False)"

definition User_ok :: "User \<Rightarrow> bool" where
  "User_ok u =
    (is_string (id' u) \<and> is_string (fullName u) \<and> is_string (universityEmail u) \<and>
     is_string (password u) \<and>
     is_optional_string (phoneNumber u) \<and> is_optional_string (universityName u) \<and>
     is_optional_string (universityId u) \<and> is_optional_string (program u) \<and>
     is_optional_string (yearOfStudy u) \<and> is_optional_string (verificationToken u) \<and>
     Date_ok (createdAt u) \<and>
     (case verificationTokenExpiry u of None \<Rightarrow> True | Some d \<Rightarrow> Date_ok d))"

section \<open>Decimal digits\<close>

definition digit :: "int \<Rightarrow> char" where
  "digit n = char_of (48 + n)"

definition is_digit :: "char \<Rightarrow> bool" where
  "is_digit c = (48 \<le> (of_char c :: int) \<and> (of_char c :: int) \<le> 57)"

definition digit_val :: "char \<Rightarrow> int" where
  "digit_val c = of_char c - 48"

text \<open>\<open>pad w n\<close>: the last \<open>w\<close> decimal digits of \<open>n\<close>, zero-padded.\<close>

fun pad :: "nat \<Rightarrow> int \<Rightarrow> string" where
  "pad 0 n = []"
| "pad (Suc w) n = pad w (n div 10) @ [digit (n mod 10)]"

text \<open>The value of a string of decimal digits; \<open>None\<close> when a character is not a digit.\<close>

fun digits_val :: "int \<Rightarrow> string \<Rightarrow> int option" where
  "digits_val acc [] = Some acc"
| "digits_val acc (c # cs) =
     (if is_digit c then digits_val (10 * acc + digit_val c) cs else None)"

section \<open>The runtime's \<open>Date\<close>: \<open>toISOString\<close> and \<open>new Date(string)\<close> (ECMA-262)\<close>

definition Day :: "int \<Rightarrow> int" where
  "Day t = t div 86400000"

definition DayFromYear :: "int \<Rightarrow> int" where
  "DayFromYear y =
     365 * (y - 1970) + (y - 1969) div 4 - (y - 1901) div 100 + (y - 1601) div 400"

definition InLeapYear :: "int \<Rightarrow> int" where
  "InLeapYear y =
     (if y mod 4 \<noteq> 0 then 0 else if y mod 100 \<noteq> 0 then 1 else if y mod 400 \<noteq> 0 then 0 else 1)"

lemma div_succ:
  fixes x n :: int
  assumes "0 < n"
  shows "(x + 1) div n = x div n + (if (x + 1) mod n = 0 then 1 else 0)"
proof -
  have r: "0 \<le> x mod n" "x mod n < n" using assms by simp_all
  have x: "x + 1 = n * (x div n) + (x mod n + 1)" by simp
  show ?thesis
  proof (cases "x mod n + 1 < n")
    case True
    have "(x + 1) div n = x div n"
      by (rule int_div_pos_eq [OF x]) (use r True in simp_all)
    moreover have "(x + 1) mod n = x mod n + 1"
      by (rule int_mod_pos_eq [OF x]) (use r True in simp_all)
    ultimately show ?thesis using r by simp
  next
    case False
    then have e: "x mod n + 1 = n" using r by simp
    from x e have "x + 1 = n * (x div n) + n" by linarith
    then have x': "x + 1 = n * (x div n + 1) + 0" by (simp add: algebra_simps)
    have "(x + 1) div n = x div n + 1"
      by (rule int_div_pos_eq [OF x']) (use assms in simp_all)
    moreover have "(x + 1) mod n = 0"
      by (rule int_mod_pos_eq [OF x']) (use assms in simp_all)
    ultimately show ?thesis by simp
  qed
qed

lemma mod_100_4: "y mod 100 = 0 \<Longrightarrow> y mod 4 = 0" for y :: int
  using mod_mod_cancel [of 4 100 y] by simp

lemma mod_400_100: "y mod 400 = 0 \<Longrightarrow> y mod 100 = 0" for y :: int
  using mod_mod_cancel [of 100 400 y] by simp

lemma mod_shift:
  "(y - 1968) mod 4 = y mod 4" "(y - 1900) mod 100 = y mod 100"
  "(y - 1600) mod 400 = y mod 400" for y :: int
  using mod_mult_self1 [of y "- 492" 4] mod_mult_self1 [of y "- 19" 100]
    mod_mult_self1 [of y "- 4" 400] by simp_all

lemma DayFromYear_Suc: "DayFromYear (y + 1) = DayFromYear y + 365 + InLeapYear y"
proof -
  have a: "(y + 1 - 1969) div 4 = (y - 1969) div 4 + (if y mod 4 = 0 then 1 else 0)"
    using div_succ [of 4 "y - 1969"] mod_shift(1) [of y] by (simp add: algebra_simps)
  have b: "(y + 1 - 1901) div 100 = (y - 1901) div 100 + (if y mod 100 = 0 then 1 else 0)"
    using div_succ [of 100 "y - 1901"] mod_shift(2) [of y] by (simp add: algebra_simps)
  have c: "(y + 1 - 1601) div 400 = (y - 1601) div 400 + (if y mod 400 = 0 then 1 else 0)"
    using div_succ [of 400 "y - 1601"] mod_shift(3) [of y] by (simp add: algebra_simps)
  show ?thesis
    unfolding DayFromYear_def InLeapYear_def a b c
    using mod_100_4 [of y] mod_400_100 [of y] by auto
qed

lemma InLeapYear_range: "InLeapYear y = 0 \<or> InLeapYear y = 1"
  by (simp add: InLeapYear_def)

lemma DayFromYear_less: "DayFromYear y < DayFromYear (y + 1)"
  using InLeapYear_range [of y] unfolding DayFromYear_Suc by auto

text \<open>
  \<open>YearFromTime\<close> is the largest year whose first day is not after the day of \<open>t\<close>:
  a search upwards from a year that is not too late.
\<close>

function year_up :: "int \<Rightarrow> int \<Rightarrow> int" where
  "year_up d y = (if DayFromYear (y + 1) \<le> d then year_up d (y + 1) else y)"
  by pat_completeness auto
termination
proof (relation "measure (\<lambda>(d, y). nat (d + 1 - DayFromYear (y + 1)))")
  show "wf (measure (\<lambda>(d, y). nat (d + 1 - DayFromYear (y + 1))))" by simp
next
  fix d y :: int
  assume "DayFromYear (y + 1) \<le> d"
  moreover have "DayFromYear (y + 1) < DayFromYear (y + 1 + 1)" by (rule DayFromYear_less)
  ultimately show "((d, y + 1), (d, y)) \<in> measure (\<lambda>(d, y). nat (d + 1 - DayFromYear (y + 1)))"
    by simp
qed

declare year_up.simps [simp del]

definition YearFromDay :: "int \<Rightarrow> int" where
  "YearFromDay d = year_up d (1970 + (if 0 \<le> d then d div 366 else d div 365))"

definition YearFromTime :: "int \<Rightarrow> int" where
  "YearFromTime t = YearFromDay (Day t)"

definition DayWithinYear :: "int \<Rightarrow> int" where
  "DayWithinYear t = Day t - DayFromYear (YearFromTime t)"

text \<open>\<open>MonthFromTime\<close> (0 is January) and \<open>DateFromTime\<close>, from the day within the year.\<close>

definition month_of :: "int \<Rightarrow> int \<Rightarrow> int" where
  "month_of l d =
     (if d < 31 then 0 else if d < 59 + l then 1 else if d < 90 + l then 2
      else if d < 120 + l then 3 else if d < 151 + l then 4 else if d < 181 + l then 5
      else if d < 212 + l then 6 else if d < 243 + l then 7 else if d < 273 + l then 8
      else if d < 304 + l then 9 else if d < 334 + l then 10 else 11)"

text \<open>The day within the year on which month \<open>m\<close> starts.\<close>

definition month_start :: "int \<Rightarrow> int \<Rightarrow> int" where
  "month_start l m =
     (if m = 0 then 0 else if m = 1 then 31 else if m = 2 then 59 + l
      else if m = 3 then 90 + l else if m = 4 then 120 + l else if m = 5 then 151 + l
      else if m = 6 then 181 + l else if m = 7 then 212 + l else if m = 8 then 243 + l
      else if m = 9 then 273 + l else if m = 10 then 304 + l else 334 + l)"

definition MonthFromTime :: "int \<Rightarrow> int" where
  "MonthFromTime t = month_of (InLeapYear (YearFromTime t)) (DayWithinYear t)"

definition DateFromTime :: "int \<Rightarrow> int" where
  "DateFromTime t =
     DayWithinYear t - month_start (InLeapYear (YearFromTime t)) (MonthFromTime t) + 1"

definition HourFromTime :: "int \<Rightarrow> int" where
  "HourFromTime t = (t div 3600000) mod 24"

definition MinFromTime :: "int \<Rightarrow> int" where
  "MinFromTime t = (t div 60000) mod 60"

definition SecFromTime :: "int \<Rightarrow> int" where
  "SecFromTime t = (t div 1000) mod 60"

definition msFromTime :: "int \<Rightarrow> int" where
  "msFromTime t = t mod 1000"

text \<open>
  The year of an ISO string: four digits for the years 0 to 9999, otherwise a sign and
  six digits (the expanded years).
\<close>

definition iso_year :: "int \<Rightarrow> string" where
  "iso_year y =
     (if 0 \<le> y \<and> y \<le> 9999 then pad 4 y
      else (if y < 0 then CHR ''-'' else CHR ''+'') # pad 6 (abs y))"

definition iso_string :: "int \<Rightarrow> string" where
  "iso_string t =
     iso_year (YearFromTime t) @ CHR ''-'' # pad 2 (MonthFromTime t + 1) @
     CHR ''-'' # pad 2 (DateFromTime t) @ CHR ''T'' # pad 2 (HourFromTime t) @
     CHR '':'' # pad 2 (MinFromTime t) @ CHR '':'' # pad 2 (SecFromTime t) @
     CHR ''.'' # pad 3 (msFromTime t) @ ''Z''"

text \<open>\<open>Date.prototype.toISOString\<close>: throws \<open>RangeError\<close> on an Invalid Date.\<close>

definition toISOString :: "Date \<Rightarrow> error + string" where
  "toISOString d = (case d of Invalid_Date \<Rightarrow> Inl RangeError | TimeValue t \<Rightarrow> Inr (iso_string t))"

text \<open>
  \<open>new Date(string)\<close>. ECMA-262 fixes the result for the date-time format with legal
  element values and the UTC designator \<open>Z\<close>, the format \<open>toISOString\<close> writes. What the
  runtime makes of any other string is left to the parameter \<open>other\<close>.
\<close>

definition split_year :: "string \<Rightarrow> (int \<times> string) option" where
  "split_year s =
     (case s of
        [] \<Rightarrow> None
      | c # cs \<Rightarrow>
          if c = CHR ''+'' \<or> c = CHR ''-'' then
            (if length cs < 6 then None
             else case digits_val 0 (take 6 cs) of
                    None \<Rightarrow> None
                  | Some y \<Rightarrow>
                      if c = CHR ''-'' \<and> y = 0 then None
                      else Some (if c = CHR ''-'' then - y else y, drop 6 cs))
          else
            (if length s < 4 then None
             else case digits_val 0 (take 4 s) of
                    None \<Rightarrow> None
                  | Some y \<Rightarrow> Some (y, drop 4 s)))"

text \<open>The rest of the string, \<open>-MM-DDTHH:mm:ss.sssZ\<close>, as month, day, hour, minute, second, ms.\<close>

definition parse_rest :: "string \<Rightarrow> (int \<times> int \<times> int \<times> int \<times> int \<times> int) option" where
  "parse_rest s =
     (if length s = 20 \<and> s ! 0 = CHR ''-'' \<and> s ! 3 = CHR ''-'' \<and> s ! 6 = CHR ''T'' \<and>
         s ! 9 = CHR '':'' \<and> s ! 12 = CHR '':'' \<and> s ! 15 = CHR ''.'' \<and> s ! 19 = CHR ''Z''
      then
        (case (digits_val 0 [s ! 1, s ! 2], digits_val 0 [s ! 4, s ! 5],
               digits_val 0 [s ! 7, s ! 8], digits_val 0 [s ! 10, s ! 11],
               digits_val 0 [s ! 13, s ! 14], digits_val 0 [s ! 16, s ! 17, s ! 18]) of
           (Some mo, Some dd, Some hh, Some mi, Some ss, Some ms) \<Rightarrow>
             Some (mo, dd, hh, mi, ss, ms)
         | _ \<Rightarrow> None)
      else None)"

definition month_length :: "int \<Rightarrow> int \<Rightarrow> int" where
  "month_length l m = (if m = 11 then 31 else month_start l (m + 1) - month_start l m)"

definition TimeClip :: "int \<Rightarrow> Date" where
  "TimeClip t = (if time_in_range t then TimeValue t else Invalid_Date)"

text \<open>\<open>MakeDay\<close> for a month (0 is January) and a day of that month, then \<open>MakeDate\<close>.\<close>

definition MakeDay :: "int \<Rightarrow> int \<Rightarrow> int \<Rightarrow> int" where
  "MakeDay y m dt = DayFromYear y + month_start (InLeapYear y) m + dt - 1"

definition MakeTime :: "int \<Rightarrow> int \<Rightarrow> int \<Rightarrow> int \<Rightarrow> int" where
  "MakeTime h m s ms = h * 3600000 + m * 60000 + s * 1000 + ms"

definition MakeDate :: "int \<Rightarrow> int \<Rightarrow> int" where
  "MakeDate day time = day * 86400000 + time"

definition Date_parse :: "(string \<Rightarrow> Date) \<Rightarrow> string \<Rightarrow> Date" where
  "Date_parse other s =
     (case split_year s of
        None \<Rightarrow> other s
      | Some (y, rest) \<Rightarrow>
          (case parse_rest rest of
             None \<Rightarrow> other s
           | Some (mo, dd, hh, mi, ss, ms) \<Rightarrow>
               if 1 \<le> mo \<and> mo \<le> 12 \<and> 1 \<le> dd \<and>
                  dd \<le> month_length (InLeapYear y) (mo - 1) \<and>
                  hh \<le> 23 \<and> mi \<le> 59 \<and> ss \<le> 59
               then TimeClip (MakeDate (MakeDay y (mo - 1) dd) (MakeTime hh mi ss ms))
               else other s))"

section \<open>The table \<open>users\<close>\<close>

text \<open>The keys of a \<open>User\<close>, which are also the columns of the table.\<close>

datatype field =
    K_id | K_fullName | K_universityEmail | K_password | K_phoneNumber | K_universityName
  | K_universityId | K_program | K_yearOfStudy | K_isEmailVerified | K_verificationToken
  | K_verificationTokenExpiry | K_collegeData | K_createdAt

text \<open>
  A row. A column declared \<open>TEXT\<close> holds NULL (\<open>None\<close>) or text; the columns declared
  \<open>BOOLEAN\<close> and \<open>DATETIME\<close> have NUMERIC affinity and hold whatever was bound.
\<close>

record row =
  col_id :: "string option"
  col_fullName :: "string option"
  col_universityEmail :: "string option"
  col_password :: "string option"
  col_phoneNumber :: "string option"
  col_universityName :: "string option"
  col_universityId :: "string option"
  col_program :: "string option"
  col_yearOfStudy :: "string option"
  col_isEmailVerified :: sqlval
  col_verificationToken :: "string option"
  col_verificationTokenExpiry :: sqlval
  col_collegeData :: "string option"
  col_createdAt :: sqlval

function decimal :: "int \<Rightarrow> string" where
  "decimal n = (if n < 10 then [digit n] else decimal (n div 10) @ [digit (n mod 10)])"
  by pat_completeness auto
termination
  by (relation "measure (\<lambda>n. nat n)") auto

declare decimal.simps [simp del]

text \<open>TEXT affinity: an integer stored in a TEXT column becomes its decimal text.\<close>

definition text_affinity :: "sqlval \<Rightarrow> string option" where
  "text_affinity v =
     (case v of
        SNull \<Rightarrow> None
      | SText s \<Rightarrow> Some s
      | SInt n \<Rightarrow> Some (if n < 0 then CHR ''-'' # decimal (- n) else decimal n))"

definition cell :: "string option \<Rightarrow> sqlval" where
  "cell c = (case c of None \<Rightarrow> SNull | Some s \<Rightarrow> SText s)"

fun get_col :: "field \<Rightarrow> row \<Rightarrow> sqlval" where
  "get_col K_id r = cell (col_id r)"
| "get_col K_fullName r = cell (col_fullName r)"
| "get_col K_universityEmail r = cell (col_universityEmail r)"
| "get_col K_password r = cell (col_password r)"
| "get_col K_phoneNumber r = cell (col_phoneNumber r)"
| "get_col K_universityName r = cell (col_universityName r)"
| "get_col K_universityId r = cell (col_universityId r)"
| "get_col K_program r = cell (col_program r)"
| "get_col K_yearOfStudy r = cell (col_yearOfStudy r)"
| "get_col K_isEmailVerified r = col_isEmailVerified r"
| "get_col K_verificationToken r = cell (col_verificationToken r)"
| "get_col K_verificationTokenExpiry r = col_verificationTokenExpiry r"
| "get_col K_collegeData r = cell (col_collegeData r)"
| "get_col K_createdAt r = col_createdAt r"

text \<open>
  Storing a bound value in a column. The text this program binds to a NUMERIC column is
  the result of \<open>toISOString\<close>, which is no numeric literal and so stays text.
\<close>

fun set_col :: "field \<Rightarrow> sqlval \<Rightarrow> row \<Rightarrow> row" where
  "set_col K_id v r = r\<lparr>col_id := text_affinity v\<rparr>"
| "set_col K_fullName v r = r\<lparr>col_fullName := text_affinity v\<rparr>"
| "set_col K_universityEmail v r = r\<lparr>col_universityEmail := text_affinity v\<rparr>"
| "set_col K_password v r = r\<lparr>col_password := text_affinity v\<rparr>"
| "set_col K_phoneNumber v r = r\<lparr>col_phoneNumber := text_affinity v\<rparr>"
| "set_col K_universityName v r = r\<lparr>col_universityName := text_affinity v\<rparr>"
| "set_col K_universityId v r = r\<lparr>col_universityId := text_affinity v\<rparr>"
| "set_col K_program v r = r\<lparr>col_program := text_affinity v\<rparr>"
| "set_col K_yearOfStudy v r = r\<lparr>col_yearOfStudy := text_affinity v\<rparr>"
| "set_col K_isEmailVerified v r = r\<lparr>col_isEmailVerified := v\<rparr>"
| "set_col K_verificationToken v r = r\<lparr>col_verificationToken := text_affinity v\<rparr>"
| "set_col K_verificationTokenExpiry v r = r\<lparr>col_verificationTokenExpiry := v\<rparr>"
| "set_col K_collegeData v r = r\<lparr>col_collegeData := text_affinity v\<rparr>"
| "set_col K_createdAt v r = r\<lparr>col_createdAt := v\<rparr>"

text \<open>\<open>SET c1 = ?, c2 = ?, ...\<close> on one row, and the row of an \<open>INSERT\<close> naming every column.\<close>

definition assign :: "(field \<times> sqlval) list \<Rightarrow> row \<Rightarrow> row" where
  "assign asg r = fold (\<lambda>(c, v). set_col c v) asg r"

definition null_row :: row where
  "null_row =
     \<lparr>col_id = None, col_fullName = None, col_universityEmail = None, col_password = None,
      col_phoneNumber = None, col_universityName = None, col_universityId = None,
      col_program = None, col_yearOfStudy = None, col_isEmailVerified = SNull,
      col_verificationToken = None, col_verificationTokenExpiry = SNull,
      col_collegeData = None, col_createdAt = SNull\<rparr>"

text \<open>
  The constraints of \<open>CREATE TABLE users\<close>: \<open>fullName\<close>, \<open>universityEmail\<close> and
  \<open>password\<close> are \<open>NOT NULL\<close>, \<open>universityEmail\<close> is \<open>UNIQUE\<close>, \<open>id\<close> is the primary
  key (in SQLite a primary key that is not an integer may be NULL, and NULLs do not clash).
\<close>

definition not_null_ok :: "row \<Rightarrow> bool" where
  "not_null_ok r =
     (col_fullName r \<noteq> None \<and> col_universityEmail r \<noteq> None \<and> col_password r \<noteq> None)"

definition clash :: "row \<Rightarrow> row \<Rightarrow> bool" where
  "clash r x =
     (col_universityEmail x = col_universityEmail r \<or>
      (col_id r \<noteq> None \<and> col_id x = col_id r))"

definition sql_insert :: "(field \<times> sqlval) list \<Rightarrow> row list \<Rightarrow> error + row list" where
  "sql_insert asg rows =
     (let r = assign asg null_row in
      if not_null_ok r \<and> \<not> list_ex (clash r) rows then Inr (rows @ [r])
      else Inl SQLITE_CONSTRAINT)"

text \<open>
  \<open>UPDATE users SET ... WHERE id = ?\<close>: every row whose \<open>id\<close> is the bound text is
  assigned; the statement fails, changing nothing, when an assigned row breaks a constraint.
\<close>

definition sql_update :: "(field \<times> sqlval) list \<Rightarrow> string \<Rightarrow> row list \<Rightarrow> error + row list" where
  "sql_update asg i rows =
     (let new = map (\<lambda>r. if col_id r = Some i then assign asg r else r) rows;
          ks = [0..<length rows] in
      if list_all (\<lambda>k. col_id (rows ! k) = Some i \<longrightarrow>
                         not_null_ok (new ! k) \<and>
                         list_all (\<lambda>j. j = k \<or> \<not> clash (new ! k) (new ! j)) ks) ks
      then Inr new
      else Inl SQLITE_CONSTRAINT)"

text \<open>\<open>db.get\<close> of a \<open>SELECT ... WHERE\<close>: the first row, in scan order, that matches.\<close>

definition sql_get :: "(row \<Rightarrow> bool) \<Rightarrow> row list \<Rightarrow> row option" where
  "sql_get w rows = find w rows"

definition sql_count :: "(row \<Rightarrow> bool) \<Rightarrow> row list \<Rightarrow> nat" where
  "sql_count w rows = length (filter w rows)"

text \<open>
  The order of \<open>ORDER BY\<close>: NULL, then integers by value, then text byte by byte (the
  BINARY collation).
\<close>

fun text_less :: "string \<Rightarrow> string \<Rightarrow> bool" where
  "text_less [] [] = False"
| "text_less [] (y # ys) = True"
| "text_less (x # xs) [] = False"
| "text_less (x # xs) (y # ys) =
     ((of_char x :: nat) < of_char y \<or> (x = y \<and> text_less xs ys))"

fun sql_less :: "sqlval \<Rightarrow> sqlval \<Rightarrow> bool" where
  "sql_less SNull SNull = False"
| "sql_less SNull v = True"
| "sql_less (SInt a) SNull = False"
| "sql_less (SInt a) (SInt b) = (a < b)"
| "sql_less (SInt a) (SText t) = True"
| "sql_less (SText s) (SText t) = text_less s t"
| "sql_less (SText s) v = False"

text \<open>
  \<open>ORDER BY createdAt DESC\<close>, as an insertion sort; rows with equal keys, whose order
  SQL leaves open, stay in scan order.
\<close>

fun insert_desc :: "row \<Rightarrow> row list \<Rightarrow> row list" where
  "insert_desc r [] = [r]"
| "insert_desc r (x # xs) =
     (if sql_less (col_createdAt x) (col_createdAt r) then r # x # xs
      else x # insert_desc r xs)"

definition order_by_createdAt_desc :: "row list \<Rightarrow> row list" where
  "order_by_createdAt_desc rows = foldl (\<lambda>acc r. insert_desc r acc) [] rows"



section \<open>What the program takes from outside\<close>

text \<open>
  \<open>JSON.stringify\<close> and \<open>JSON.parse\<close> (\<open>None\<close>: it throws \<open>SyntaxError\<close>), the date
  strings whose reading is left to the implementation, and whether each step of the
  initialization succeeds. \<open>CREATE TABLE\<close> is the first statement on the connection, so it
  also fails when the connection could not be opened; the \<open>throw\<close> inside the connection
  callback happens outside every operation and has no place in their results.
\<close>

record env =
  JSON_stringify :: "collegeData \<Rightarrow> string"
  JSON_parse :: "string \<Rightarrow> collegeData option"
  Date_parse_other :: "string \<Rightarrow> Date"
  ensureDataDirectory_ok :: bool
  import_sqlite3_ok :: bool
  create_table_ok :: bool
  alter_table_ok :: "field \<Rightarrow> bool"

section \<open>\<open>class Database\<close>\<close>

datatype promise = Pending | Fulfilled | Rejected

text \<open>The statements handed to the connection.\<close>

datatype sql =
    CREATE_TABLE | ALTER_TABLE field | INSERT | SELECT | UPDATE "field list" | DELETE

text \<open>
  The object's fields \<open>initialized\<close> and \<open>initPromise\<close>, the table behind the connection
  \<open>db\<close>, and two records of what happened: how often \<open>_doInitialize\<close> was invoked, and
  the statements executed so far.
\<close>

record Database =
  initialized :: bool
  initPromise :: "promise option"
  users :: "row list"
  doInitialize_calls :: nat
  executed :: "sql list"

definition new_Database :: "row list \<Rightarrow> Database" where
  "new_Database rows =
     \<lparr>initialized = False, initPromise = None, users = rows, doInitialize_calls = 0,
      executed = []\<rparr>"

definition run_logged :: "sql \<Rightarrow> Database \<Rightarrow> Database" where
  "run_logged q s = s\<lparr>executed := executed s @ [q]\<rparr>"

text \<open>One \<open>try { await run(ALTER TABLE ...) } catch (e) { }\<close>: the outcome is dropped.\<close>

definition try_alter :: "env \<Rightarrow> field \<Rightarrow> Database \<Rightarrow> Database" where
  "try_alter e c s =
     (case (if alter_table_ok e c then Inr () else Inl SQLITE_ERROR,
           run_logged (ALTER_TABLE c) s) of
        (Inl err, s') \<Rightarrow> s'
      | (Inr u, s') \<Rightarrow> s')"

text \<open>The body of \<open>_doInitialize\<close>, run to its end.\<close>

definition doInitialize :: "env \<Rightarrow> Database \<Rightarrow> (error + unit) \<times> Database" where
  "doInitialize e s =
     (if \<not> ensureDataDirectory_ok e then (Inl Initialization_failed, s)
      else if \<not> import_sqlite3_ok e then (Inl Initialization_failed, s)
      else
        let s1 = run_logged CREATE_TABLE s in
        if \<not> create_table_ok e then (Inl Initialization_failed, s1)
        else
          let s2 = try_alter e K_isEmailVerified s1;
              s3 = try_alter e K_verificationToken s2;
              s4 = try_alter e K_verificationTokenExpiry s3;
              s5 = try_alter e K_collegeData s4
          in (Inr (), s5\<lparr>initialized := True\<rparr>))"

text \<open>
  \<open>initializeDatabase\<close> up to its \<open>await\<close>: JavaScript runs this part without
  interruption. The call of \<open>_doInitialize\<close> returns a pending promise, which is stored
  before any other caller can run.
\<close>

definition enter :: "Database \<Rightarrow> Database" where
  "enter s =
     (if initialized s then s
      else case initPromise s of
             Some p \<Rightarrow> s
           | None \<Rightarrow> s\<lparr>initPromise := Some Pending,
                         doInitialize_calls := Suc (doInitialize_calls s)\<rparr>)"

text \<open>The pending \<open>_doInitialize\<close> finishes, and settles the promise.\<close>

definition settle :: "env \<Rightarrow> Database \<Rightarrow> Database" where
  "settle e s =
     (if initPromise s = Some Pending then
        (case doInitialize e s of
           (Inl err, s') \<Rightarrow> s'\<lparr>initPromise := Some Rejected\<rparr>
         | (Inr u, s') \<Rightarrow> s'\<lparr>initPromise := Some Fulfilled\<rparr>)
      else s)"

text \<open>\<open>await this.initializeDatabase()\<close> by a caller that runs alone until it returns.\<close>

definition initializeDatabase :: "env \<Rightarrow> Database \<Rightarrow> (error + unit) \<times> Database" where
  "initializeDatabase e s =
     (if initialized s then (Inr (), s)
      else
        let s' = settle e (enter s) in
        if initPromise s' = Some Rejected then (Inl Initialization_failed, s')
        else (Inr (), s'))"

text \<open>
  Callers that overlap: each event is one uninterrupted piece of the program, the entry
  of some operation into \<open>initializeDatabase\<close> or the end of the pending initialization.
\<close>

datatype event = Call | Settle

definition step :: "env \<Rightarrow> event \<Rightarrow> Database \<Rightarrow> Database" where
  "step e ev s = (case ev of Call \<Rightarrow> enter s | Settle \<Rightarrow> settle e s)"

definition run_events :: "env \<Rightarrow> event list \<Rightarrow> Database \<Rightarrow> Database" where
  "run_events e evs s = fold (step e) evs s"

section \<open>Binding parameters and decoding rows\<close>

text \<open>
  node-sqlite3 binds a string as TEXT, a boolean as the integer 1 or 0, \<open>null\<close> as NULL,
  and leaves the parameter of an \<open>undefined\<close> unbound, which SQLite reads as NULL. A
  \<open>Date\<close> is bound as its time value (NaN, stored as NULL, when invalid).
\<close>

definition bind :: "jsval \<Rightarrow> sqlval" where
  "bind v = (case v of Undefined \<Rightarrow> SNull | Null \<Rightarrow> SNull | Str s \<Rightarrow> SText s)"

definition bind_bool :: "bool \<Rightarrow> sqlval" where
  "bind_bool b = SInt (if b then 1 else 0)"

definition bind_Date :: "Date \<Rightarrow> sqlval" where
  "bind_Date d = (case d of TimeValue t \<Rightarrow> SInt t | Invalid_Date \<Rightarrow> SNull)"

text \<open>A TEXT cell as the JavaScript value \<open>db.get\<close> returns.\<close>

definition js_of :: "string option \<Rightarrow> jsval" where
  "js_of c = (case c of None \<Rightarrow> Null | Some s \<Rightarrow> Str s)"

definition truthy :: "sqlval \<Rightarrow> bool" where
  "truthy v = (case v of SNull \<Rightarrow> False | SInt n \<Rightarrow> n \<noteq> 0 | SText s \<Rightarrow> s \<noteq> [])"

text \<open>\<open>new Date(v)\<close> for a cell: \<open>null\<close> gives the epoch, a number its clipped time value.\<close>

definition new_Date :: "env \<Rightarrow> sqlval \<Rightarrow> Date" where
  "new_Date e v =
     (case v of
        SNull \<Rightarrow> TimeValue 0
      | SInt n \<Rightarrow> TimeClip n
      | SText s \<Rightarrow> Date_parse (Date_parse_other e) s)"

definition rowToUser :: "env \<Rightarrow> row \<Rightarrow> error + User" where
  "rowToUser e r =
     (case (case col_collegeData r of
              None \<Rightarrow> Inr None
            | Some s \<Rightarrow>
                if s = [] then Inr None
                else (case JSON_parse e s of None \<Rightarrow> Inl SyntaxError | Some cd \<Rightarrow> Inr (Some cd))) of
        Inl err \<Rightarrow> Inl err
      | Inr cd \<Rightarrow>
          Inr \<lparr>id' = js_of (col_id r),
               fullName = js_of (col_fullName r),
               universityEmail = js_of (col_universityEmail r),
               password = js_of (col_password r),
               phoneNumber = js_of (col_phoneNumber r),
               universityName = js_of (col_universityName r),
               universityId = js_of (col_universityId r),
               program = js_of (col_program r),
               yearOfStudy = js_of (col_yearOfStudy r),
               createdAt = new_Date e (col_createdAt r),
               isEmailVerified = truthy (col_isEmailVerified r),
               verificationToken = js_of (col_verificationToken r),
               verificationTokenExpiry =
                 (if truthy (col_verificationTokenExpiry r)
                  then Some (new_Date e (col_verificationTokenExpiry r)) else None),
               collegeData = cd\<rparr>)"

fun map_result :: "('a \<Rightarrow> error + 'b) \<Rightarrow> 'a list \<Rightarrow> error + 'b list" where
  "map_result f [] = Inr []"
| "map_result f (x # xs) =
     (case f x of
        Inl err \<Rightarrow> Inl err
      | Inr y \<Rightarrow> (case map_result f xs of Inl err \<Rightarrow> Inl err | Inr ys \<Rightarrow> Inr (y # ys)))"

section \<open>The operations\<close>

text \<open>The parameters of the \<open>INSERT\<close>, in the order of its column list.\<close>

definition addUser_params :: "env \<Rightarrow> User \<Rightarrow> error + (field \<times> sqlval) list" where
  "addUser_params e user =
     (case (case verificationTokenExpiry user of
              None \<Rightarrow> Inr SNull
            | Some d \<Rightarrow> (case toISOString d of Inl err \<Rightarrow> Inl err | Inr s \<Rightarrow> Inr (SText s))) of
        Inl err \<Rightarrow> Inl err
      | Inr expiry \<Rightarrow>
          (case toISOString (createdAt user) of
             Inl err \<Rightarrow> Inl err
           | Inr created \<Rightarrow>
               Inr [(K_id, bind (id' user)), (K_fullName, bind (fullName user)),
                    (K_universityEmail, bind (universityEmail user)),
                    (K_password, bind (password user)),
                    (K_phoneNumber, bind (phoneNumber user)),
                    (K_universityName, bind (universityName user)),
                    (K_universityId, bind (universityId user)),
                    (K_program, bind (program user)),
                    (K_yearOfStudy, bind (yearOfStudy user)),
                    (K_isEmailVerified, bind_bool (isEmailVerified user)),
                    (K_verificationToken, bind (verificationToken user)),
                    (K_verificationTokenExpiry, expiry),
                    (K_collegeData,
                       (case collegeData user of
                          Some cd \<Rightarrow> SText (JSON_stringify e cd)
                        | None \<Rightarrow> SNull)),
                    (K_createdAt, SText created)]))"

definition addUser :: "env \<Rightarrow> Database \<Rightarrow> User \<Rightarrow> (error + unit) \<times> Database" where
  "addUser e s user =
     (case initializeDatabase e s of
        (Inl err, s1) \<Rightarrow> (Inl err, s1)
      | (Inr u, s1) \<Rightarrow>
          (case addUser_params e user of
             Inl err \<Rightarrow> (Inl err, s1)
           | Inr params \<Rightarrow>
               (case sql_insert params (users s1) of
                  Inl err \<Rightarrow> (Inl err, run_logged INSERT s1)
                | Inr rows \<Rightarrow> (Inr (), run_logged INSERT (s1\<lparr>users := rows\<rparr>)))))"

text \<open>\<open>db.get\<close> of a \<open>SELECT *\<close>, then \<open>row ? this.rowToUser(row) : undefined\<close>.\<close>

definition get_user ::
  "env \<Rightarrow> Database \<Rightarrow> (row \<Rightarrow> bool) \<Rightarrow> (error + User option) \<times> Database" where
  "get_user e s w =
     (case initializeDatabase e s of
        (Inl err, s1) \<Rightarrow> (Inl err, s1)
      | (Inr u, s1) \<Rightarrow>
          (case sql_get w (users s1) of
             None \<Rightarrow> (Inr None, run_logged SELECT s1)
           | Some r \<Rightarrow>
               (case rowToUser e r of
                  Inl err \<Rightarrow> (Inl err, run_logged SELECT s1)
                | Inr v \<Rightarrow> (Inr (Some v), run_logged SELECT s1))))"




definition findUserByVerificationToken ::
  "env \<Rightarrow> Database \<Rightarrow> string \<Rightarrow> (error + User option) \<times> Database" where
  "findUserByVerificationToken e s token = get_user e s (\<lambda>r. col_verificationToken r = Some token)"

text \<open>
  \<open>Partial<User>\<close> as \<open>Object.entries\<close> lists it: one entry for each key the object has
  (an object has a key once), with the value its type allows; \<open>Undefined\<close> and \<open>None\<close>
  are a key set to \<open>undefined\<close>.
\<close>

datatype entry =
    E_id jsval | E_fullName jsval | E_universityEmail jsval | E_password jsval
  | E_phoneNumber jsval | E_universityName jsval | E_universityId jsval | E_program jsval
  | E_yearOfStudy jsval | E_createdAt "Date option" | E_isEmailVerified "bool option"
  | E_verificationToken jsval | E_verificationTokenExpiry "Date option"
  | E_collegeData "collegeData option"

fun key :: "entry \<Rightarrow> field" where
  "key (E_id v) = K_id"
| "key (E_fullName v) = K_fullName"
| "key (E_universityEmail v) = K_universityEmail"
| "key (E_password v) = K_password"
| "key (E_phoneNumber v) = K_phoneNumber"
| "key (E_universityName v) = K_universityName"
| "key (E_universityId v) = K_universityId"
| "key (E_program v) = K_program"
| "key (E_yearOfStudy v) = K_yearOfStudy"
| "key (E_createdAt d) = K_createdAt"
| "key (E_isEmailVerified b) = K_isEmailVerified"
| "key (E_verificationToken v) = K_verificationToken"
| "key (E_verificationTokenExpiry d) = K_verificationTokenExpiry"
| "key (E_collegeData c) = K_collegeData"

fun is_undefined :: "entry \<Rightarrow> bool" where
  "is_undefined (E_id v) = (v = Undefined)"
| "is_undefined (E_fullName v) = (v = Undefined)"
| "is_undefined (E_universityEmail v) = (v = Undefined)"
| "is_undefined (E_password v) = (v = Undefined)"
| "is_undefined (E_phoneNumber v) = (v = Undefined)"
| "is_undefined (E_universityName v) = (v = Undefined)"
| "is_undefined (E_universityId v) = (v = Undefined)"
| "is_undefined (E_program v) = (v = Undefined)"
| "is_undefined (E_yearOfStudy v) = (v = Undefined)"
| "is_undefined (E_createdAt d) = (d = None)"
| "is_undefined (E_isEmailVerified b) = (b = None)"
| "is_undefined (E_verificationToken v) = (v = Undefined)"
| "is_undefined (E_verificationTokenExpiry d) = (d = None)"
| "is_undefined (E_collegeData c) = (c = None)"

text \<open>The last branch of the loop: \<open>if (value !== undefined)\<close> push the value as it is.\<close>

definition push_value :: "field \<Rightarrow> jsval \<Rightarrow> (field \<times> sqlval) option" where
  "push_value k v = (if v \<noteq> Undefined then Some (k, bind v) else None)"

text \<open>
  One round of the loop of \<open>updateUser\<close>: what it pushes on \<open>fields\<close> and \<open>values\<close>, if
  anything. An object and a \<open>Date\<close> are truthy, so the first two branches take every
  \<open>collegeData\<close> and \<open>verificationTokenExpiry\<close> that is not \<open>undefined\<close>.
\<close>

fun assignment :: "env \<Rightarrow> entry \<Rightarrow> error + (field \<times> sqlval) option" where
  "assignment e (E_collegeData (Some cd)) = Inr (Some (K_collegeData, SText (JSON_stringify e cd)))"
| "assignment e (E_collegeData None) = Inr None"
| "assignment e (E_verificationTokenExpiry (Some d)) =
     (case toISOString d of
        Inl err \<Rightarrow> Inl err
      | Inr s \<Rightarrow> Inr (Some (K_verificationTokenExpiry, SText s)))"
| "assignment e (E_verificationTokenExpiry None) = Inr None"
| "assignment e (E_createdAt (Some d)) = Inr (Some (K_createdAt, bind_Date d))"
| "assignment e (E_createdAt None) = Inr None"
| "assignment e (E_isEmailVerified (Some b)) = Inr (Some (K_isEmailVerified, bind_bool b))"
| "assignment e (E_isEmailVerified None) = Inr None"
| "assignment e (E_id v) = Inr (push_value K_id v)"
| "assignment e (E_fullName v) = Inr (push_value K_fullName v)"
| "assignment e (E_universityEmail v) = Inr (push_value K_universityEmail v)"
| "assignment e (E_password v) = Inr (push_value K_password v)"
| "assignment e (E_phoneNumber v) = Inr (push_value K_phoneNumber v)"
| "assignment e (E_universityName v) = Inr (push_value K_universityName v)"
| "assignment e (E_universityId v) = Inr (push_value K_universityId v)"
| "assignment e (E_program v) = Inr (push_value K_program v)"
| "assignment e (E_yearOfStudy v) = Inr (push_value K_yearOfStudy v)"
| "assignment e (E_verificationToken v) = Inr (push_value K_verificationToken v)"

text \<open>The whole loop: \<open>fields\<close> and \<open>values\<close> side by side, or the error that ends it.\<close>

fun collect :: "env \<Rightarrow> entry list \<Rightarrow> error + (field \<times> sqlval) list" where
  "collect e [] = Inr []"
| "collect e (x # xs) =
     (case assignment e x of
        Inl err \<Rightarrow> Inl err
      | Inr a \<Rightarrow>
          (case collect e xs of
             Inl err \<Rightarrow> Inl err
           | Inr as \<Rightarrow> Inr (case a of None \<Rightarrow> as | Some p \<Rightarrow> p # as)))"

definition updateUser ::
  "env \<Rightarrow> Database \<Rightarrow> string \<Rightarrow> entry list \<Rightarrow> (error + unit) \<times> Database" where
  "updateUser e s i updates =
     (case initializeDatabase e s of
        (Inl err, s1) \<Rightarrow> (Inl err, s1)
      | (Inr u, s1) \<Rightarrow>
          (case collect e updates of
             Inl err \<Rightarrow> (Inl err, s1)
           | Inr asg \<Rightarrow>
               if length asg > 0 then
                 (case sql_update asg i (users s1) of
                    Inl err \<Rightarrow> (Inl err, run_logged (UPDATE (map fst asg)) s1)
                  | Inr rows \<Rightarrow>
                      (Inr (), run_logged (UPDATE (map fst asg)) (s1\<lparr>users := rows\<rparr>)))
               else (Inr (), s1)))"

definition emailExists :: "env \<Rightarrow> Database \<Rightarrow> string \<Rightarrow> (error + bool) \<times> Database" where
  "emailExists e s email =
     (case initializeDatabase e s of
        (Inl err, s1) \<Rightarrow> (Inl err, s1)
      | (Inr u, s1) \<Rightarrow>
          (Inr (sql_count (\<lambda>r. col_universityEmail r = Some email) (users s1) > 0),
           run_logged SELECT s1))"

definition getAllUsers :: "env \<Rightarrow> Database \<Rightarrow> (error + User list) \<times> Database" where
  "getAllUsers e s =
     (case initializeDatabase e s of
        (Inl err, s1) \<Rightarrow> (Inl err, s1)
      | (Inr u, s1) \<Rightarrow>
          (map_result (rowToUser e) (order_by_createdAt_desc (users s1)), run_logged SELECT s1))"


section \<open>Lemmas on dates: \<open>new Date(d.toISOString())\<close> is \<open>d\<close>\<close>

lemma DayFromYear_1970: "DayFromYear 1970 = 0"
  by (simp add: DayFromYear_def)

lemma DayFromYear_up: "365 * int k \<le> DayFromYear (1970 + int k) \<and> DayFromYear (1970 + int k) \<le> 366 * int k"
proof (induction k)
  case 0
  then show ?case by (simp add: DayFromYear_1970)
next
  case (Suc k)
  have "DayFromYear (1970 + int (Suc k)) = DayFromYear (1970 + int k) + 365 + InLeapYear (1970 + int k)"
    using DayFromYear_Suc [of "1970 + int k"] by (simp add: algebra_simps)
  with Suc InLeapYear_range [of "1970 + int k"] show ?case by auto
qed

lemma DayFromYear_down: "- 366 * int k \<le> DayFromYear (1970 - int k) \<and> DayFromYear (1970 - int k) \<le> - 365 * int k"
proof (induction k)
  case 0
  then show ?case by (simp add: DayFromYear_1970)
next
  case (Suc k)
  have "DayFromYear (1970 - int k) = DayFromYear (1970 - int (Suc k)) + 365 + InLeapYear (1970 - int (Suc k))"
    using DayFromYear_Suc [of "1970 - int (Suc k)"] by (simp add: algebra_simps)
  with Suc InLeapYear_range [of "1970 - int (Suc k)"] show ?case by auto
qed

lemma DayFromYear_bounds_pos: "0 \<le> k \<Longrightarrow> 365 * k \<le> DayFromYear (1970 + k) \<and> DayFromYear (1970 + k) \<le> 366 * k"
  using DayFromYear_up [of "nat k"] by simp

lemma DayFromYear_bounds_neg: "k \<le> 0 \<Longrightarrow> 366 * k \<le> DayFromYear (1970 + k) \<and> DayFromYear (1970 + k) \<le> 365 * k"
  using DayFromYear_down [of "nat (- k)"] by simp

lemma year_start: "DayFromYear (1970 + (if 0 \<le> d then d div 366 else d div 365)) \<le> d"
proof (cases "0 \<le> d")
  case True
  then have "0 \<le> d div 366" by simp
  from DayFromYear_bounds_pos [OF this] have "DayFromYear (1970 + d div 366) \<le> 366 * (d div 366)" by simp
  also have "\<dots> \<le> d"
    using mult_div_mod_eq [of 366 d] pos_mod_sign [of 366 d] by linarith
  finally show ?thesis using True by simp
next
  case False
  then have "d div 365 \<le> 0"
    using mult_div_mod_eq [of 365 d] pos_mod_sign [of 365 d] by linarith
  from DayFromYear_bounds_neg [OF this] have "DayFromYear (1970 + d div 365) \<le> 365 * (d div 365)" by simp
  also have "\<dots> \<le> d"
    using mult_div_mod_eq [of 365 d] pos_mod_sign [of 365 d] by linarith
  finally show ?thesis using False by simp
qed

lemma year_up_correct:
  "DayFromYear y \<le> d \<Longrightarrow> DayFromYear (year_up d y) \<le> d \<and> d < DayFromYear (year_up d y + 1)"
proof (induction d y rule: year_up.induct)
  case (1 d y)
  show ?case
  proof (cases "DayFromYear (y + 1) \<le> d")
    case True
    with "1.IH" [OF True True] show ?thesis by (subst (1 2) year_up.simps) simp
  next
    case False
    with "1.prems" show ?thesis by (subst (1 2) year_up.simps) simp
  qed
qed

lemma YearFromDay_correct:
  "DayFromYear (YearFromDay d) \<le> d \<and> d < DayFromYear (YearFromDay d + 1)"
  unfolding YearFromDay_def by (rule year_up_correct [OF year_start])

lemma DayWithinYear_range:
  "0 \<le> DayWithinYear t \<and> DayWithinYear t < 365 + InLeapYear (YearFromTime t)"
  using YearFromDay_correct [of "Day t"] DayFromYear_Suc [of "YearFromDay (Day t)"]
  by (simp add: DayWithinYear_def YearFromTime_def)

lemma month_of_range:
  assumes "l = 0 \<or> l = 1" "0 \<le> d" "d < 365 + l"
  shows "0 \<le> month_of l d \<and> month_of l d \<le> 11 \<and>
         month_start l (month_of l d) \<le> d \<and>
         d - month_start l (month_of l d) + 1 \<le> month_length l (month_of l d)"
  using assms by (auto simp: month_of_def month_start_def month_length_def)

lemma time_within_day:
  "t mod 86400000 =
     (t div 3600000 mod 24) * 3600000 + (t div 60000 mod 60) * 60000 +
     (t div 1000 mod 60) * 1000 + t mod 1000" for t :: int
proof -
  have a: "t mod 60000 = 1000 * (t div 1000 mod 60) + t mod 1000"
    using zmod_zmult2_eq [of 60 t 1000]
    by (simp only: numeral_times_numeral semiring_norm zero_le_numeral simp_thms)
  have b: "t mod 3600000 = 60000 * (t div 60000 mod 60) + t mod 60000"
    using zmod_zmult2_eq [of 60 t 60000]
    by (simp only: numeral_times_numeral semiring_norm zero_le_numeral simp_thms)
  have c: "t mod 86400000 = 3600000 * (t div 3600000 mod 24) + t mod 3600000"
    using zmod_zmult2_eq [of 24 t 3600000]
    by (simp only: numeral_times_numeral semiring_norm zero_le_numeral simp_thms)
  show ?thesis
    by (simp only: c b a mult.commute add.assoc)
qed

lemma MakeDate_roundtrip:
  "MakeDate (MakeDay (YearFromTime t) (MonthFromTime t) (DateFromTime t))
     (MakeTime (HourFromTime t) (MinFromTime t) (SecFromTime t) (msFromTime t)) = t"
proof -
  have d: "MakeDay (YearFromTime t) (MonthFromTime t) (DateFromTime t) = Day t"
    by (simp add: MakeDay_def DateFromTime_def MonthFromTime_def DayWithinYear_def)
  have m: "MakeTime (HourFromTime t) (MinFromTime t) (SecFromTime t) (msFromTime t) = t mod 86400000"
    by (simp add: MakeTime_def HourFromTime_def MinFromTime_def SecFromTime_def msFromTime_def
        time_within_day [of t])
  show ?thesis
    unfolding d m by (simp add: MakeDate_def Day_def)
qed

lemma digit_ok: "0 \<le> n \<Longrightarrow> n \<le> 9 \<Longrightarrow> is_digit (digit n) \<and> digit_val (digit n) = n"
  by (simp add: is_digit_def digit_val_def digit_def)

lemma pad_2: "pad 2 n = [digit (n div 10 mod 10), digit (n mod 10)]"
  by (simp add: numeral_2_eq_2)

lemma pad_3: "pad 3 n = [digit (n div 10 div 10 mod 10), digit (n div 10 mod 10), digit (n mod 10)]"
  by (simp add: numeral_3_eq_3)

lemma length_pad [simp]: "length (pad w n) = w"
  by (induction w n rule: pad.induct) simp_all

lemma digits_val_append:
  "digits_val acc (xs @ ys) = (case digits_val acc xs of None \<Rightarrow> None | Some v \<Rightarrow> digits_val v ys)"
  by (induction xs arbitrary: acc) simp_all

lemma digits_val_pad:
  "0 \<le> n \<Longrightarrow> n < 10 ^ w \<Longrightarrow> digits_val acc (pad w n) = Some (acc * 10 ^ w + n)"
proof (induction w n arbitrary: acc rule: pad.induct)
  case (1 n)
  then show ?case by simp
next
  case (2 w n)
  have a: "0 \<le> n div 10" using "2.prems" by simp
  have b: "n div 10 < 10 ^ w" using "2.prems" by simp
  have d: "0 \<le> n mod 10" "n mod 10 \<le> 9" by simp_all
  have e: "n = 10 * (n div 10) + n mod 10" by simp
  have "digits_val acc (pad (Suc w) n) = Some (10 * (acc * 10 ^ w + n div 10) + n mod 10)"
    by (simp add: digits_val_append "2.IH" [OF a b] digit_ok [OF d])
  also have "10 * (acc * 10 ^ w + n div 10) + n mod 10 = acc * 10 ^ Suc w + n"
    using e by (simp add: algebra_simps)
  finally show ?case .
qed

lemma pad_digits: "0 \<le> n \<Longrightarrow> c \<in> set (pad w n) \<Longrightarrow> is_digit c"
proof (induction w n rule: pad.induct)
  case (1 n)
  then show ?case by simp
next
  case (2 w n)
  have "0 \<le> n div 10" using "2.prems" by simp
  moreover have "is_digit (digit (n mod 10))" by (simp add: digit_ok)
  ultimately show ?case using "2.IH" "2.prems" by auto
qed

lemma not_digit_sign: "\<not> is_digit CHR ''+''" "\<not> is_digit CHR ''-''"
  by (simp_all add: is_digit_def)

lemma split_year_unsigned:
  assumes "s = c # cs" "c \<noteq> CHR ''+''" "c \<noteq> CHR ''-''"
  shows "split_year s =
     (if length s < 4 then None
      else case digits_val 0 (take 4 s) of None \<Rightarrow> None | Some y \<Rightarrow> Some (y, drop 4 s))"
  unfolding split_year_def assms(1) using assms(2,3) by simp

lemma split_year_iso:
  assumes "- 999999 \<le> y" "y \<le> 999999"
  shows "split_year (iso_year y @ rest) = Some (y, rest)"
proof (cases "0 \<le> y \<and> y \<le> 9999")
  case True
  obtain c cs where p: "pad 4 y = c # cs" by (cases "pad 4 y") (simp_all add: numeral_eq_Suc)
  have "is_digit c" using pad_digits [of y c 4] True p by simp
  then have c: "c \<noteq> CHR ''+''" "c \<noteq> CHR ''-''" using not_digit_sign by auto
  have l: "length (pad 4 y @ rest) \<ge> 4" by simp
  have v: "digits_val 0 (pad 4 y) = Some y" using digits_val_pad [of y 4 0] True by simp
  have t: "take 4 (pad 4 y @ rest) = pad 4 y" "drop 4 (pad 4 y @ rest) = rest" by simp_all
  have s: "pad 4 y @ rest = c # (cs @ rest)" using p by simp
  have "split_year (pad 4 y @ rest) = Some (y, rest)"
    unfolding split_year_unsigned [OF s c] t using l v by simp
  then show ?thesis using True by (simp add: iso_year_def)
next
  case False
  let ?c = "if y < 0 then CHR ''-'' else CHR ''+''"
  have v: "digits_val 0 (pad 6 \<bar>y\<bar>) = Some \<bar>y\<bar>" using digits_val_pad [of "\<bar>y\<bar>" 6 0] assms by simp
  have nz: "\<bar>y\<bar> \<noteq> 0" using False by auto
  have "split_year (?c # pad 6 \<bar>y\<bar> @ rest) = Some (y, rest)"
    unfolding split_year_def using v nz by (simp del: pad.simps)
  then show ?thesis using False by (auto simp: iso_year_def)
qed

lemma digits_val_2:
  "0 \<le> n \<Longrightarrow> n < 100 \<Longrightarrow> digits_val 0 [digit (n div 10 mod 10), digit (n mod 10)] = Some n"
  using digits_val_pad [of n 2 0] by (simp add: pad_2)

lemma digits_val_3:
  "0 \<le> n \<Longrightarrow> n < 1000 \<Longrightarrow>
   digits_val 0 [digit (n div 10 div 10 mod 10), digit (n div 10 mod 10), digit (n mod 10)] = Some n"
  using digits_val_pad [of n 3 0] by (simp add: pad_3)

lemma parse_rest_iso:
  assumes "0 \<le> mo" "mo < 100" "0 \<le> dd" "dd < 100" "0 \<le> hh" "hh < 100" "0 \<le> mi" "mi < 100"
    "0 \<le> ss" "ss < 100" "0 \<le> ms" "ms < 1000"
  shows "parse_rest (CHR ''-'' # pad 2 mo @ CHR ''-'' # pad 2 dd @ CHR ''T'' # pad 2 hh @
     CHR '':'' # pad 2 mi @ CHR '':'' # pad 2 ss @ CHR ''.'' # pad 3 ms @ ''Z'') =
     Some (mo, dd, hh, mi, ss, ms)"
  unfolding pad_2 pad_3 parse_rest_def
  using digits_val_2 [of mo] digits_val_2 [of dd] digits_val_2 [of hh] digits_val_2 [of mi]
    digits_val_2 [of ss] digits_val_3 [of ms] assms
  by (simp del: digits_val.simps)

lemma Day_range: "time_in_range t \<Longrightarrow> - 100000000 \<le> Day t \<and> Day t \<le> 100000000"
  unfolding time_in_range_def Day_def
  using zdiv_mono1 [of "- 8640000000000000" t 86400000] zdiv_mono1 [of t 8640000000000000 86400000]
  by simp

lemma YearFromTime_range:
  assumes "time_in_range t"
  shows "- 999999 \<le> YearFromTime t \<and> YearFromTime t \<le> 999999"
proof -
  let ?y = "YearFromTime t"
  note d = Day_range [OF assms]
  note c = YearFromDay_correct [of "Day t", folded YearFromTime_def]
  have "?y \<le> 999999"
  proof (rule ccontr)
    assume "\<not> ?y \<le> 999999"
    then have k: "0 \<le> ?y - 1970" "998030 \<le> ?y - 1970" by simp_all
    have e: "1970 + (?y - 1970) = ?y" by simp
    from DayFromYear_bounds_pos [OF k(1)] have "365 * (?y - 1970) \<le> DayFromYear ?y"
      unfolding e by blast
    with k(2) c d show False by simp
  qed
  moreover have "- 999999 \<le> ?y"
  proof (rule ccontr)
    assume "\<not> - 999999 \<le> ?y"
    then have k: "?y + 1 - 1970 \<le> 0" "?y + 1 - 1970 \<le> - 1001969" by simp_all
    have e: "1970 + (?y + 1 - 1970) = ?y + 1" by simp
    from DayFromYear_bounds_neg [OF k(1)] have "DayFromYear (?y + 1) \<le> 365 * (?y + 1 - 1970)"
      unfolding e by blast
    with k(2) c d show False by simp
  qed
  ultimately show ?thesis by simp
qed

lemma month_length_le: "0 \<le> m \<Longrightarrow> m \<le> 11 \<Longrightarrow> l = 0 \<or> l = 1 \<Longrightarrow> month_length l m \<le> 31"
  by (auto simp: month_length_def month_start_def)

lemma Date_fields:
  "0 \<le> MonthFromTime t \<and> MonthFromTime t \<le> 11 \<and> 1 \<le> DateFromTime t \<and>
   DateFromTime t \<le> month_length (InLeapYear (YearFromTime t)) (MonthFromTime t) \<and>
   DateFromTime t \<le> 31"
proof -
  let ?l = "InLeapYear (YearFromTime t)"
  note r = DayWithinYear_range [of t]
  from month_of_range [OF InLeapYear_range [of "YearFromTime t"], of "DayWithinYear t"] r
  have m: "0 \<le> MonthFromTime t" "MonthFromTime t \<le> 11"
    "month_start ?l (MonthFromTime t) \<le> DayWithinYear t"
    "DateFromTime t \<le> month_length ?l (MonthFromTime t)"
    by (simp_all add: MonthFromTime_def DateFromTime_def)
  from month_length_le [OF m(1,2) InLeapYear_range [of "YearFromTime t"]] m
  show ?thesis by (simp add: DateFromTime_def)
qed

lemma Date_parse_iso_string:
  assumes "time_in_range t"
  shows "Date_parse other (iso_string t) = TimeValue t"
proof -
  let ?y = "YearFromTime t"
  let ?rest = "CHR ''-'' # pad 2 (MonthFromTime t + 1) @
     CHR ''-'' # pad 2 (DateFromTime t) @ CHR ''T'' # pad 2 (HourFromTime t) @
     CHR '':'' # pad 2 (MinFromTime t) @ CHR '':'' # pad 2 (SecFromTime t) @
     CHR ''.'' # pad 3 (msFromTime t) @ ''Z''"
  note f = Date_fields [of t]
  have h: "0 \<le> HourFromTime t" "HourFromTime t \<le> 23" "0 \<le> MinFromTime t" "MinFromTime t \<le> 59"
    "0 \<le> SecFromTime t" "SecFromTime t \<le> 59" "0 \<le> msFromTime t" "msFromTime t \<le> 999"
    by (simp_all add: HourFromTime_def MinFromTime_def SecFromTime_def msFromTime_def)
  have s: "iso_string t = iso_year ?y @ ?rest" by (simp add: iso_string_def)
  have y: "split_year (iso_string t) = Some (?y, ?rest)"
    unfolding s using YearFromTime_range [OF assms] by (intro split_year_iso) simp_all
  have r: "parse_rest ?rest = Some (MonthFromTime t + 1, DateFromTime t, HourFromTime t,
      MinFromTime t, SecFromTime t, msFromTime t)"
    using f h by (intro parse_rest_iso) simp_all
  have "Date_parse other (iso_string t) =
      TimeClip (MakeDate (MakeDay ?y (MonthFromTime t) (DateFromTime t))
        (MakeTime (HourFromTime t) (MinFromTime t) (SecFromTime t) (msFromTime t)))"
    unfolding Date_parse_def y using f h by (simp add: r del: pad.simps)
  then show ?thesis using assms by (simp add: MakeDate_roundtrip TimeClip_def)
qed

section \<open>Lemmas on the order of ISO strings\<close>

lemma text_less_append:
  "length xs = length xs' \<Longrightarrow>
   text_less (xs @ ys) (xs' @ ys') = (text_less xs xs' \<or> (xs = xs' \<and> text_less ys ys'))"
proof (induction xs xs' rule: list_induct2)
  case Nil
  show ?case by (cases ys; cases ys') simp_all
next
  case (Cons x xs y ys)
  then show ?case by auto
qed

lemma text_less_Cons: "text_less (c # xs) (c # ys) = text_less xs ys"
  by simp

lemma of_char_digit: "0 \<le> n \<Longrightarrow> n \<le> 9 \<Longrightarrow> (of_char (digit n) :: nat) = nat (48 + n)"
proof -
  assume a: "0 \<le> n" "n \<le> 9"
  have "(of_char (digit n) :: int) = (48 + n) mod 256" by (simp only: digit_def of_char_of)
  also have "\<dots> = 48 + n" using a by (intro mod_pos_pos_trivial) simp_all
  finally have "nat (of_char (digit n) :: int) = nat (48 + n)" by (rule arg_cong)
  then show ?thesis by (simp only: nat_of_char)
qed

lemma pad_inj:
  assumes "0 \<le> a" "a < 10 ^ w" "0 \<le> b" "b < 10 ^ w" "pad w a = pad w b"
  shows "a = b"
proof -
  have "Some a = digits_val 0 (pad w a)" using digits_val_pad [OF assms(1,2), of 0] by simp
  also have "\<dots> = digits_val 0 (pad w b)" by (simp only: assms(5))
  also have "\<dots> = Some b" using digits_val_pad [OF assms(3,4), of 0] by simp
  finally show ?thesis by simp
qed

lemma lex_10:
  fixes qa ra qb rb :: int
  assumes "0 \<le> ra" "ra < 10" "0 \<le> rb" "rb < 10"
  shows "(10 * qa + ra < 10 * qb + rb) = (qa < qb \<or> (qa = qb \<and> ra < rb))"
  using assms by linarith

lemma div_mod_10_less:
  "a < b \<longleftrightarrow> a div 10 < b div 10 \<or> (a div 10 = b div 10 \<and> a mod 10 < b mod 10)" for a b :: int
proof -
  have "(10 * (a div 10) + a mod 10 < 10 * (b div 10) + b mod 10) =
      (a div 10 < b div 10 \<or> (a div 10 = b div 10 \<and> a mod 10 < b mod 10))"
    by (rule lex_10) simp_all
  then show ?thesis by (simp only: mult_div_mod_eq)
qed

lemma text_less_pad:
  "0 \<le> a \<Longrightarrow> a < 10 ^ w \<Longrightarrow> 0 \<le> b \<Longrightarrow> b < 10 ^ w \<Longrightarrow>
   text_less (pad w a) (pad w b) = (a < b)"
proof (induction w arbitrary: a b)
  case 0
  then show ?case by simp
next
  case (Suc w)
  have ra: "0 \<le> a div 10" "a div 10 < 10 ^ w" using Suc.prems by simp_all
  have rb: "0 \<le> b div 10" "b div 10 < 10 ^ w" using Suc.prems by simp_all
  have d: "0 \<le> a mod 10" "a mod 10 \<le> 9" "0 \<le> b mod 10" "b mod 10 \<le> 9" by simp_all
  obtain p q where pq: "p = a mod 10" "q = b mod 10" by simp
  have "text_less [digit p] [digit q] = (p < q)"
    using d unfolding pq [symmetric] by (auto simp: of_char_digit)
  then have last: "text_less [digit (a mod 10)] [digit (b mod 10)] = (a mod 10 < b mod 10)"
    unfolding pq .
  have eq: "(pad w (a div 10) = pad w (b div 10)) = (a div 10 = b div 10)"
    using pad_inj [OF ra(1,2) rb(1,2)] by auto
  have "text_less (pad (Suc w) a) (pad (Suc w) b) =
      (a div 10 < b div 10 \<or> (a div 10 = b div 10 \<and> a mod 10 < b mod 10))"
    by (simp add: text_less_append Suc.IH [OF ra rb] eq last del: text_less.simps)
  then show ?case by (simp only: div_mod_10_less [of a b])
qed

lemma text_less_field:
  assumes "0 \<le> a" "a < 10 ^ w" "0 \<le> b" "b < 10 ^ w"
  shows "text_less (pad w a @ c # xs) (pad w b @ c # ys) = (a < b \<or> (a = b \<and> text_less xs ys))"
proof -
  have eq: "(pad w a = pad w b) = (a = b)" using pad_inj [OF assms] by auto
  have "text_less (pad w a @ c # xs) (pad w b @ c # ys) =
      (text_less (pad w a) (pad w b) \<or> (pad w a = pad w b \<and> text_less (c # xs) (c # ys)))"
    by (rule text_less_append) simp
  then show ?thesis
    by (simp only: text_less_pad [OF assms] eq text_less_Cons)
qed

lemma DayFromYear_mono: "a \<le> b \<Longrightarrow> DayFromYear a \<le> DayFromYear b"
proof (induction b rule: int_ge_induct)
  case base
  show ?case by simp
next
  case (step i)
  with DayFromYear_less [of i] show ?case by simp
qed

lemma YearFromDay_mono: "d1 \<le> d2 \<Longrightarrow> YearFromDay d1 \<le> YearFromDay d2"
proof (rule ccontr)
  assume d: "d1 \<le> d2" and "\<not> YearFromDay d1 \<le> YearFromDay d2"
  then have "YearFromDay d2 + 1 \<le> YearFromDay d1" by simp
  from DayFromYear_mono [OF this] YearFromDay_correct [of d1] YearFromDay_correct [of d2] d
  show False by simp
qed

lemma month_of_mono: "l = 0 \<or> l = 1 \<Longrightarrow> d \<le> d' \<Longrightarrow> month_of l d \<le> month_of l d'"
  by (auto simp: month_of_def)

lemma lex_time:
  fixes h1 i1 s1 k1 h2 i2 s2 k2 :: int
  assumes "0 \<le> i1" "i1 \<le> 59" "0 \<le> s1" "s1 \<le> 59" "0 \<le> k1" "k1 \<le> 999"
    and "0 \<le> i2" "i2 \<le> 59" "0 \<le> s2" "s2 \<le> 59" "0 \<le> k2" "k2 \<le> 999"
    and "h1 * 3600000 + i1 * 60000 + s1 * 1000 + k1 < h2 * 3600000 + i2 * 60000 + s2 * 1000 + k2"
  shows "h1 < h2 \<or> (h1 = h2 \<and> (i1 < i2 \<or> (i1 = i2 \<and> (s1 < s2 \<or> (s1 = s2 \<and> k1 < k2)))))"
  using assms by linarith

definition four_digit_year :: "int \<Rightarrow> bool" where
  "four_digit_year t = (0 \<le> YearFromTime t \<and> YearFromTime t \<le> 9999)"

lemma time_fields:
  "0 \<le> HourFromTime t" "HourFromTime t \<le> 23" "0 \<le> MinFromTime t" "MinFromTime t \<le> 59"
  "0 \<le> SecFromTime t" "SecFromTime t \<le> 59" "0 \<le> msFromTime t" "msFromTime t \<le> 999"
  by (simp_all add: HourFromTime_def MinFromTime_def SecFromTime_def msFromTime_def)

lemma iso_string_less:
  assumes "four_digit_year t1" "four_digit_year t2"
  shows "text_less (iso_string t1) (iso_string t2) =
    (YearFromTime t1 < YearFromTime t2 \<or> (YearFromTime t1 = YearFromTime t2 \<and>
    (MonthFromTime t1 + 1 < MonthFromTime t2 + 1 \<or> (MonthFromTime t1 + 1 = MonthFromTime t2 + 1 \<and>
    (DateFromTime t1 < DateFromTime t2 \<or> (DateFromTime t1 = DateFromTime t2 \<and>
    (HourFromTime t1 < HourFromTime t2 \<or> (HourFromTime t1 = HourFromTime t2 \<and>
    (MinFromTime t1 < MinFromTime t2 \<or> (MinFromTime t1 = MinFromTime t2 \<and>
    (SecFromTime t1 < SecFromTime t2 \<or> (SecFromTime t1 = SecFromTime t2 \<and>
     msFromTime t1 < msFromTime t2))))))))))))"
proof -
  have s: "iso_string t =
     pad 4 (YearFromTime t) @ CHR ''-'' # pad 2 (MonthFromTime t + 1) @
     CHR ''-'' # pad 2 (DateFromTime t) @ CHR ''T'' # pad 2 (HourFromTime t) @
     CHR '':'' # pad 2 (MinFromTime t) @ CHR '':'' # pad 2 (SecFromTime t) @
     CHR ''.'' # pad 3 (msFromTime t) @ CHR ''Z'' # []" if "four_digit_year t" for t
    using that by (simp add: iso_string_def iso_year_def four_digit_year_def del: pad.simps)
  have y: "0 \<le> YearFromTime t" "YearFromTime t < 10 ^ 4" if "four_digit_year t" for t
    using that by (simp_all add: four_digit_year_def)
  have m: "0 \<le> MonthFromTime t + 1" "MonthFromTime t + 1 < 10 ^ 2"
    "0 \<le> DateFromTime t" "DateFromTime t < 10 ^ 2" for t
    using Date_fields [of t] by simp_all
  have h: "0 \<le> HourFromTime t" "HourFromTime t < 10 ^ 2" "0 \<le> MinFromTime t"
    "MinFromTime t < 10 ^ 2" "0 \<le> SecFromTime t" "SecFromTime t < 10 ^ 2"
    "0 \<le> msFromTime t" "msFromTime t < 10 ^ 3" for t
    using time_fields [of t] by simp_all
  show ?thesis
    unfolding s [OF assms(1)] s [OF assms(2)]
    by (simp only: text_less_field [OF y [OF assms(1)] y [OF assms(2)]]
        text_less_field [OF m(1,2) m(1,2)] text_less_field [OF m(3,4) m(3,4)]
        text_less_field [OF h(1,2) h(1,2)] text_less_field [OF h(3,4) h(3,4)]
        text_less_field [OF h(5,6) h(5,6)] text_less_field [OF h(7,8) h(7,8)]
        text_less.simps simp_thms)
qed

lemma lex_day:
  fixes d1 r1 d2 r2 :: int
  assumes "0 \<le> r1" "r1 < 86400000" "0 \<le> r2" "r2 < 86400000"
    and "86400000 * d1 + r1 < 86400000 * d2 + r2"
  shows "d1 < d2 \<or> (d1 = d2 \<and> r1 < r2)"
  using assms by linarith

lemma time_of_day:
  "t mod 86400000 =
     HourFromTime t * 3600000 + MinFromTime t * 60000 + SecFromTime t * 1000 + msFromTime t"
  by (simp only: HourFromTime_def MinFromTime_def SecFromTime_def msFromTime_def
      time_within_day [of t])

lemma iso_string_mono:
  assumes "four_digit_year t1" "four_digit_year t2" "t1 < t2"
  shows "text_less (iso_string t1) (iso_string t2)"
proof -
  have "86400000 * Day t1 + t1 mod 86400000 < 86400000 * Day t2 + t2 mod 86400000"
    using assms(3) by (simp only: Day_def mult_div_mod_eq)
  then have "Day t1 < Day t2 \<or> (Day t1 = Day t2 \<and> t1 mod 86400000 < t2 mod 86400000)"
    by (intro lex_day) simp_all
  then consider (day) "Day t1 < Day t2" | (time) "Day t1 = Day t2" "t1 mod 86400000 < t2 mod 86400000"
    by blast
  then have "YearFromTime t1 < YearFromTime t2 \<or> (YearFromTime t1 = YearFromTime t2 \<and>
    (MonthFromTime t1 + 1 < MonthFromTime t2 + 1 \<or> (MonthFromTime t1 + 1 = MonthFromTime t2 + 1 \<and>
    (DateFromTime t1 < DateFromTime t2 \<or> (DateFromTime t1 = DateFromTime t2 \<and>
    (HourFromTime t1 < HourFromTime t2 \<or> (HourFromTime t1 = HourFromTime t2 \<and>
    (MinFromTime t1 < MinFromTime t2 \<or> (MinFromTime t1 = MinFromTime t2 \<and>
    (SecFromTime t1 < SecFromTime t2 \<or> (SecFromTime t1 = SecFromTime t2 \<and>
     msFromTime t1 < msFromTime t2)))))))))))"
  proof cases
    case time
    have e: "YearFromTime t1 = YearFromTime t2" "MonthFromTime t1 = MonthFromTime t2"
      "DateFromTime t1 = DateFromTime t2"
      using time(1) by (simp_all add: YearFromTime_def MonthFromTime_def DateFromTime_def
          DayWithinYear_def)
    have "HourFromTime t1 * 3600000 + MinFromTime t1 * 60000 + SecFromTime t1 * 1000 + msFromTime t1
        < HourFromTime t2 * 3600000 + MinFromTime t2 * 60000 + SecFromTime t2 * 1000 + msFromTime t2"
      using time(2) by (simp only: time_of_day)
    from lex_time [OF time_fields(3-8) [of t1] time_fields(3-8) [of t2] this] e
    show ?thesis by simp
  next
    case day
    have yy: "YearFromTime t1 \<le> YearFromTime t2"
      using YearFromDay_mono [of "Day t1" "Day t2"] day by (simp add: YearFromTime_def)
    show ?thesis
    proof (cases "YearFromTime t1 = YearFromTime t2")
      case False
      with yy show ?thesis by simp
    next
      case True
      let ?l = "InLeapYear (YearFromTime t2)"
      have w: "DayWithinYear t1 < DayWithinYear t2"
        using day True by (simp add: DayWithinYear_def)
      have mm: "MonthFromTime t1 \<le> MonthFromTime t2"
        using month_of_mono [OF InLeapYear_range [of "YearFromTime t2"], of "DayWithinYear t1"
            "DayWithinYear t2"] w True
        by (simp add: MonthFromTime_def)
      show ?thesis
      proof (cases "MonthFromTime t1 = MonthFromTime t2")
        case False
        with mm True show ?thesis by simp
      next
        case m: True
        have "DateFromTime t1 < DateFromTime t2"
          using w True m by (simp add: DateFromTime_def)
        with True m show ?thesis by simp
      qed
    qed
  qed
  then show ?thesis by (simp only: iso_string_less [OF assms(1,2)])
qed

lemma year_up_step: "DayFromYear (y + 1) \<le> d \<Longrightarrow> year_up d y = year_up d (y + 1)"
  by (subst year_up.simps) simp

lemma year_up_stop: "d < DayFromYear (y + 1) \<Longrightarrow> year_up d y = y"
  by (subst year_up.simps) simp

lemma pad_4:
  "pad 4 n = [digit (n div 10 div 10 div 10 mod 10), digit (n div 10 div 10 mod 10),
              digit (n div 10 mod 10), digit (n mod 10)]"
  by (simp add: numeral_eq_Suc)

lemma pad_6:
  "pad 6 n = [digit (n div 10 div 10 div 10 div 10 div 10 mod 10),
              digit (n div 10 div 10 div 10 div 10 mod 10),
              digit (n div 10 div 10 div 10 mod 10), digit (n div 10 div 10 mod 10),
              digit (n div 10 mod 10), digit (n mod 10)]"
  by (simp add: numeral_eq_Suc)

lemma digit_table:
  "digit 0 = CHR ''0''" "digit 1 = CHR ''1''" "digit 2 = CHR ''2''" "digit 3 = CHR ''3''"
  "digit 4 = CHR ''4''" "digit 5 = CHR ''5''" "digit 6 = CHR ''6''" "digit 7 = CHR ''7''"
  "digit 8 = CHR ''8''" "digit 9 = CHR ''9''"
  by (simp_all add: digit_def char_of_def)


section \<open>Lemmas on the operations\<close>

lemma initializeDatabase_users: "users (snd (initializeDatabase e s)) = users s"
  by (auto simp: initializeDatabase_def settle_def enter_def doInitialize_def try_alter_def
      run_logged_def Let_def split: option.splits prod.splits sum.splits if_splits)

lemma initializeDatabase_done:
  "initialized s \<Longrightarrow> initializeDatabase e s = (Inr (), s)"
  by (simp add: initializeDatabase_def)

lemma initializeDatabase_Inr:
  assumes "initializeDatabase e s = (Inr u, s1)"
  shows "initialized s1 \<or> initPromise s1 = Some Fulfilled"
proof (cases "initialized s")
  case True
  with assms show ?thesis by (simp add: initializeDatabase_def)
next
  case False
  show ?thesis
  proof (cases "initPromise s")
    case None
    with False assms show ?thesis
      by (auto simp: initializeDatabase_def settle_def enter_def doInitialize_def try_alter_def
          run_logged_def Let_def split: if_splits)
  next
    case (Some p)
    with False assms show ?thesis
      by (cases p) (auto simp: initializeDatabase_def settle_def enter_def doInitialize_def
          try_alter_def run_logged_def Let_def split: if_splits)
  qed
qed

lemma initializeDatabase_ready:
  "initialized s \<or> initPromise s = Some Fulfilled \<Longrightarrow> initializeDatabase e s = (Inr (), s)"
  by (auto simp: initializeDatabase_def settle_def enter_def)

lemma addUser_params_row:
  assumes "addUser_params e u = Inr ps"
  shows "assign ps null_row =
    \<lparr>col_id = text_affinity (bind (id' u)),
     col_fullName = text_affinity (bind (fullName u)),
     col_universityEmail = text_affinity (bind (universityEmail u)),
     col_password = text_affinity (bind (password u)),
     col_phoneNumber = text_affinity (bind (phoneNumber u)),
     col_universityName = text_affinity (bind (universityName u)),
     col_universityId = text_affinity (bind (universityId u)),
     col_program = text_affinity (bind (program u)),
     col_yearOfStudy = text_affinity (bind (yearOfStudy u)),
     col_isEmailVerified = bind_bool (isEmailVerified u),
     col_verificationToken = text_affinity (bind (verificationToken u)),
     col_verificationTokenExpiry =
       (case verificationTokenExpiry u of None \<Rightarrow> SNull
        | Some d \<Rightarrow> (case d of TimeValue t \<Rightarrow> SText (iso_string t) | Invalid_Date \<Rightarrow> SNull)),
     col_collegeData = map_option (JSON_stringify e) (collegeData u),
     col_createdAt =
       (case createdAt u of TimeValue t \<Rightarrow> SText (iso_string t) | Invalid_Date \<Rightarrow> SNull)\<rparr>"
  using assms
  by (auto simp: addUser_params_def assign_def null_row_def toISOString_def text_affinity_def
      split: option.splits sum.splits Date.splits)


lemma addUser_Inr:
  assumes "addUser e s u = (Inr x, s')"
  obtains s1 ps where "initializeDatabase e s = (Inr (), s1)" "addUser_params e u = Inr ps"
    "sql_insert ps (users s) = Inr (users s')" "s' = run_logged INSERT (s1\<lparr>users := users s'\<rparr>)"
proof -
  obtain r s1 where i: "initializeDatabase e s = (r, s1)" by (cases "initializeDatabase e s")
  have us: "users s1 = users s" using initializeDatabase_users [of e s] i by simp
  from assms i obtain ps where r: "r = Inr ()" and ps: "addUser_params e u = Inr ps"
    by (auto simp: addUser_def split: sum.splits)
  from assms i r ps obtain rows where
    rows: "sql_insert ps (users s1) = Inr rows" and s': "s' = run_logged INSERT (s1\<lparr>users := rows\<rparr>)"
    by (auto simp: addUser_def split: sum.splits)
  have "users s' = rows" using s' by (simp add: run_logged_def)
  with that [of s1 ps] i r ps rows s' us show thesis by simp
qed

lemma User_ok_params: "User_ok u \<Longrightarrow> \<exists>ps. addUser_params e u = Inr ps"
  by (auto simp: User_ok_def addUser_params_def toISOString_def Date_ok_def
      split: option.splits Date.splits)

lemma addUser_ready:
  assumes "addUser e s u = (Inr x, s')"
  shows "initialized s' \<or> initPromise s' = Some Fulfilled"
proof -
  from assms obtain s1 where i: "initializeDatabase e s = (Inr (), s1)"
    and s': "s' = run_logged INSERT (s1\<lparr>users := users s'\<rparr>)"
    by (rule addUser_Inr)
  have "initialized s' = initialized s1" "initPromise s' = initPromise s1"
    by (subst s', simp add: run_logged_def)+
  with initializeDatabase_Inr [OF i] show ?thesis by simp
qed

lemma sql_insert_last:
  "sql_insert ps rows = Inr rows' \<Longrightarrow> rows' = rows @ [assign ps null_row]"
  by (auto simp: sql_insert_def Let_def split: if_splits)

lemma sql_insert_not_null:
  "sql_insert ps rows = Inr rows' \<Longrightarrow> not_null_ok (assign ps null_row)"
  by (auto simp: sql_insert_def Let_def split: if_splits)

text \<open>
  C2. After \<open>addUser\<close> has succeeded for a user, a second \<open>addUser\<close> of a valid user
  with the same \<open>universityEmail\<close> fails with the constraint error and leaves the table
  as it is, and \<open>emailExists\<close> of that email answers true. A successful \<open>addUser\<close>
  keeps the emails of the table distinct.
\<close>

theorem email_unique:
  assumes first: "addUser e s u1 = (Inr (), s1)"
    and same: "universityEmail u2 = universityEmail u1"
    and ok2: "User_ok u2"
  shows "fst (addUser e s1 u2) = Inl SQLITE_CONSTRAINT \<and>
         users (snd (addUser e s1 u2)) = users s1 \<and>
         (\<forall>email. universityEmail u1 = Str email \<longrightarrow> fst (emailExists e s1 email) = Inr True) \<and>
         (distinct (map col_universityEmail (users s)) \<longrightarrow>
            distinct (map col_universityEmail (users s1)))"
proof -
  from first obtain s0 ps where ps: "addUser_params e u1 = Inr ps"
    and ins: "sql_insert ps (users s) = Inr (users s1)"
    by (rule addUser_Inr)
  have init: "initializeDatabase e s1 = (Inr (), s1)"
    by (rule initializeDatabase_ready [OF addUser_ready [OF first]])
  let ?r = "assign ps null_row"
  have mem: "?r \<in> set (users s1)" using sql_insert_last [OF ins] by simp
  have mail: "col_universityEmail ?r = text_affinity (bind (universityEmail u1))"
    by (simp add: addUser_params_row [OF ps])
  from User_ok_params [OF ok2] obtain ps2 where ps2: "addUser_params e u2 = Inr ps2" ..
  have mail2: "col_universityEmail (assign ps2 null_row) = col_universityEmail ?r"
    by (simp add: addUser_params_row [OF ps2] mail same)
  have "list_ex (clash (assign ps2 null_row)) (users s1)"
    unfolding list_ex_iff using mem mail2 by (auto simp: clash_def)
  then have fail: "sql_insert ps2 (users s1) = Inl SQLITE_CONSTRAINT"
    by (simp add: sql_insert_def Let_def)
  have a: "addUser e s1 u2 = (Inl SQLITE_CONSTRAINT, run_logged INSERT s1)"
    by (simp add: addUser_def init ps2 fail)
  have b: "fst (emailExists e s1 email) = Inr True" if "universityEmail u1 = Str email" for email
  proof -
    have "col_universityEmail ?r = Some email"
      using mail that by (simp add: bind_def text_affinity_def)
    with mem have "filter (\<lambda>r. col_universityEmail r = Some email) (users s1) \<noteq> []"
      by (auto simp: filter_empty_conv)
    then show ?thesis by (simp add: emailExists_def init sql_count_def)
  qed
  have c: "distinct (map col_universityEmail (users s1))"
    if "distinct (map col_universityEmail (users s))"
  proof -
    have "\<forall>x \<in> set (users s). col_universityEmail x \<noteq> col_universityEmail ?r"
      using ins by (auto simp: sql_insert_def Let_def list_ex_iff clash_def split: if_splits)
    with that show ?thesis unfolding sql_insert_last [OF ins] by auto
  qed
  from a b c show ?thesis by (simp add: run_logged_def)
qed

lemma get_col_set_col:
  "get_col c (set_col c' v r) = (if c = c' then get_col c (set_col c v r) else get_col c r)"
  by (cases c; cases c'; simp)

lemma get_col_assign: "c \<notin> fst ` set asg \<Longrightarrow> get_col c (assign asg r) = get_col c r"
  unfolding assign_def
proof (induction asg arbitrary: r)
  case Nil
  then show ?case by simp
next
  case (Cons a asg)
  obtain c' v where a: "a = (c', v)" by (cases a)
  from Cons.prems a have "c \<noteq> c'" "c \<notin> fst ` set asg" by auto
  with Cons.IH [of "set_col c' v r"] a show ?case
    by (simp add: get_col_set_col)
qed

lemma assignment_key: "assignment e x = Inr (Some (c, v)) \<Longrightarrow> c = key x"
  by (induction e x rule: assignment.induct)
    (auto simp: push_value_def split: sum.splits if_splits)

lemma assignment_undefined: "assignment e x = Inr a \<Longrightarrow> (a = None) = is_undefined x"
  by (induction e x rule: assignment.induct)
    (auto simp: push_value_def split: sum.splits if_splits)

lemma collect_keys:
  "collect e xs = Inr asg \<Longrightarrow> map fst asg = map key (filter (\<lambda>x. \<not> is_undefined x) xs)"
proof (induction xs arbitrary: asg)
  case Nil
  then show ?case by simp
next
  case (Cons x xs)
  from Cons.prems obtain a as where a: "assignment e x = Inr a" and as: "collect e xs = Inr as"
    and asg: "asg = (case a of None \<Rightarrow> as | Some p \<Rightarrow> p # as)"
    by (auto split: sum.splits)
  show ?case
  proof (cases a)
    case None
    with assignment_undefined [OF a] Cons.IH [OF as] asg show ?thesis by simp
  next
    case (Some p)
    obtain c v where p: "p = (c, v)" by (cases p)
    from assignment_key [of e x c v] a Some p have "c = key x" by simp
    with assignment_undefined [OF a] Some Cons.IH [OF as] asg p show ?thesis by simp
  qed
qed

lemma sql_update_Inr:
  "sql_update asg i rows = Inr new \<Longrightarrow>
   new = map (\<lambda>r. if col_id r = Some i then assign asg r else r) rows"
  by (auto simp: sql_update_def Let_def split: if_splits)

lemma updateUser_users:
  "users (snd (updateUser e s i updates)) = users s \<or>
   (\<exists>asg. collect e updates = Inr asg \<and>
      users (snd (updateUser e s i updates)) =
        map (\<lambda>r. if col_id r = Some i then assign asg r else r) (users s))"
proof -
  obtain r s1 where i: "initializeDatabase e s = (r, s1)" by (cases "initializeDatabase e s")
  have us: "users s1 = users s" using initializeDatabase_users [of e s] i by simp
  show ?thesis
    using us sql_update_Inr
    by (auto simp: updateUser_def i run_logged_def split: sum.splits)
qed

text \<open>
  C3. \<open>updateUser\<close> keeps the number and order of the rows, leaves every row with
  another \<open>id\<close> as it was, and in every row leaves each column that is not a key of the
  update as it was.
\<close>

theorem updateUser_frame:
  "length (users (snd (updateUser e s i updates))) = length (users s) \<and>
   (\<forall>k < length (users s).
      (col_id (users s ! k) \<noteq> Some i \<longrightarrow>
         users (snd (updateUser e s i updates)) ! k = users s ! k) \<and>
      (\<forall>c. c \<notin> key ` set updates \<longrightarrow>
         get_col c (users (snd (updateUser e s i updates)) ! k) = get_col c (users s ! k)))"
proof -
  let ?new = "users (snd (updateUser e s i updates))"
  from updateUser_users [of e s i updates] show ?thesis
  proof
    assume "?new = users s"
    then show ?thesis by simp
  next
    assume "\<exists>asg. collect e updates = Inr asg \<and>
      ?new = map (\<lambda>r. if col_id r = Some i then assign asg r else r) (users s)"
    then obtain asg where c: "collect e updates = Inr asg"
      and new: "?new = map (\<lambda>r. if col_id r = Some i then assign asg r else r) (users s)"
      by blast
    have "fst ` set asg \<subseteq> key ` set updates"
    proof -
      have "fst ` set asg = set (map fst asg)" by simp
      also have "\<dots> = set (map key (filter (\<lambda>x. \<not> is_undefined x) updates))"
        by (simp only: collect_keys [OF c])
      also have "\<dots> \<subseteq> key ` set updates" by auto
      finally show ?thesis .
    qed
    then have "get_col c (assign asg r) = get_col c r" if "c \<notin> key ` set updates" for c r
      using that by (intro get_col_assign) blast
    then show ?thesis unfolding new by simp
  qed
qed


lemma find_first:
  "find w xs = Some x \<Longrightarrow> \<exists>k < length xs. xs ! k = x \<and> w x \<and> (\<forall>j < k. \<not> w (xs ! j))"
  by (auto simp: find_Some_iff)

lemma find_Some_mem: "find w xs = Some x \<Longrightarrow> x \<in> set xs \<and> w x"
  by (auto simp: find_Some_iff)

lemma get_user_result:
  assumes "fst (initializeDatabase e s) = Inr ()"
  shows "fst (get_user e s w) =
     (case find w (users s) of
        None \<Rightarrow> Inr None
      | Some r \<Rightarrow> (case rowToUser e r of Inl err \<Rightarrow> Inl err | Inr v \<Rightarrow> Inr (Some v)))"
proof -
  obtain s1 where i: "initializeDatabase e s = (Inr (), s1)"
    using assms by (cases "initializeDatabase e s") auto
  have us: "users s1 = users s" using initializeDatabase_users [of e s] i by simp
  show ?thesis
    by (simp add: get_user_def i us sql_get_def split: option.splits sum.splits)
qed

lemma rowToUser_fields:
  assumes "rowToUser e r = Inr v"
  shows "id' v = js_of (col_id r)" "fullName v = js_of (col_fullName r)"
    "universityEmail v = js_of (col_universityEmail r)" "password v = js_of (col_password r)"
    "phoneNumber v = js_of (col_phoneNumber r)" "universityName v = js_of (col_universityName r)"
    "universityId v = js_of (col_universityId r)" "program v = js_of (col_program r)"
    "yearOfStudy v = js_of (col_yearOfStudy r)"
    "verificationToken v = js_of (col_verificationToken r)"
    "createdAt v = new_Date e (col_createdAt r)"
    "isEmailVerified v = truthy (col_isEmailVerified r)"
    "verificationTokenExpiry v =
       (if truthy (col_verificationTokenExpiry r)
        then Some (new_Date e (col_verificationTokenExpiry r)) else None)"
  using assms by (auto simp: rowToUser_def split: sum.splits)


text \<open>Replacing the expiry cells of a table.\<close>

definition with_expiry :: "(row \<Rightarrow> sqlval) \<Rightarrow> Database \<Rightarrow> Database" where
  "with_expiry f s = s\<lparr>users := map (\<lambda>r. r\<lparr>col_verificationTokenExpiry := f r\<rparr>) (users s)\<rparr>"

lemma initializeDatabase_with_expiry:
  "fst (initializeDatabase e (with_expiry f s)) = fst (initializeDatabase e s)"
  by (auto simp: with_expiry_def initializeDatabase_def settle_def enter_def doInitialize_def
      try_alter_def run_logged_def Let_def split: option.splits if_splits)

text \<open>
  C8. Once the store is initialized, \<open>findUserByVerificationToken\<close> answers "not found"
  (no error) exactly when no row stores the token; a record it returns is the decoding of the
  first row that stores exactly this token; and whether a record is found does not depend on
  the expiry cells: the operation reads no clock and compares no expiry.
\<close>

theorem findUserByVerificationToken_exact:
  assumes "fst (initializeDatabase e s) = Inr ()"
  shows "(fst (findUserByVerificationToken e s token) = Inr None \<longleftrightarrow>
            (\<forall>r \<in> set (users s). col_verificationToken r \<noteq> Some token)) \<and>
     (\<forall>v. fst (findUserByVerificationToken e s token) = Inr (Some v) \<longrightarrow>
        verificationToken v = Str token \<and>
        (\<exists>k < length (users s).
            rowToUser e (users s ! k) = Inr v \<and> col_verificationToken (users s ! k) = Some token \<and>
            (\<forall>j < k. col_verificationToken (users s ! j) \<noteq> Some token))) \<and>
     (\<forall>f. fst (findUserByVerificationToken e (with_expiry f s) token) = Inr None \<longleftrightarrow>
          fst (findUserByVerificationToken e s token) = Inr None)"
proof -
  let ?w = "\<lambda>r. col_verificationToken r = Some token"
  note res = get_user_result [OF assms, of ?w]
  have a: "fst (findUserByVerificationToken e s token) = Inr None \<longleftrightarrow>
      (\<forall>r \<in> set (users s). col_verificationToken r \<noteq> Some token)"
    unfolding findUserByVerificationToken_def res
    by (auto simp: find_None_iff dest: find_Some_mem split: option.splits sum.splits)
  have b: "verificationToken v = Str token \<and>
        (\<exists>k < length (users s).
            rowToUser e (users s ! k) = Inr v \<and> col_verificationToken (users s ! k) = Some token \<and>
            (\<forall>j < k. col_verificationToken (users s ! j) \<noteq> Some token))"
    if "fst (findUserByVerificationToken e s token) = Inr (Some v)" for v
  proof -
    from that obtain r where f: "find ?w (users s) = Some r" and v: "rowToUser e r = Inr v"
      unfolding findUserByVerificationToken_def res by (auto split: option.splits sum.splits)
    from find_first [OF f] obtain k where k: "k < length (users s)" "users s ! k = r"
      "?w r" "\<forall>j < k. \<not> ?w (users s ! j)" by blast
    have "verificationToken v = Str token"
      using k(3) rowToUser_fields(10) [OF v] by (simp add: js_of_def)
    with k v show ?thesis by blast
  qed
  have c: "fst (findUserByVerificationToken e (with_expiry f s) token) = Inr None \<longleftrightarrow>
          fst (findUserByVerificationToken e s token) = Inr None" for f
  proof -
    have i: "fst (initializeDatabase e (with_expiry f s)) = Inr ()"
      using assms by (simp add: initializeDatabase_with_expiry)
    have "(find ?w (users (with_expiry f s)) = None) = (find ?w (users s) = None)"
      unfolding with_expiry_def by (auto simp: find_None_iff)
    then show ?thesis
      unfolding findUserByVerificationToken_def res get_user_result [OF i, of ?w]
      by (auto split: option.splits sum.splits)
  qed
  from a b c show ?thesis by blast
qed




lemma set_insert_desc: "set (insert_desc r xs) = insert r (set xs)"
  by (induction xs) auto



lemma getAllUsers_result:
  assumes "fst (initializeDatabase e s) = Inr ()"
  shows "fst (getAllUsers e s) = map_result (rowToUser e) (order_by_createdAt_desc (users s))"
proof -
  obtain s1 where i: "initializeDatabase e s = (Inr (), s1)"
    using assms by (cases "initializeDatabase e s") auto
  have us: "users s1 = users s" using initializeDatabase_users [of e s] i by simp
  show ?thesis by (simp add: getAllUsers_def i us)
qed

lemma addUser_initialized: 
  "addUser e s u = (Inr x, s') \<Longrightarrow> fst (initializeDatabase e s') = Inr ()"
  by (simp add: initializeDatabase_ready [OF addUser_ready])


text \<open>What holds of the object and its records in every state the events can reach.\<close>

definition init_inv :: "Database \<Rightarrow> bool" where
  "init_inv s =
     (case initPromise s of
        None \<Rightarrow> \<not> initialized s \<and> doInitialize_calls s = 0 \<and> count_list (executed s) CREATE_TABLE = 0
      | Some Pending \<Rightarrow>
          \<not> initialized s \<and> doInitialize_calls s = 1 \<and> count_list (executed s) CREATE_TABLE = 0
      | Some Fulfilled \<Rightarrow>
          initialized s \<and> doInitialize_calls s = 1 \<and> count_list (executed s) CREATE_TABLE = 1
      | Some Rejected \<Rightarrow>
          \<not> initialized s \<and> doInitialize_calls s = 1 \<and> count_list (executed s) CREATE_TABLE \<le> 1)"

lemma init_inv_new: "init_inv (new_Database rows)"
  by (simp add: init_inv_def new_Database_def)

lemma init_inv_enter: "init_inv s \<Longrightarrow> init_inv (enter s)"
  by (auto simp: init_inv_def enter_def split: option.splits promise.splits)

lemma init_inv_settle: "init_inv s \<Longrightarrow> init_inv (settle e s)"
  by (auto simp: init_inv_def settle_def doInitialize_def try_alter_def run_logged_def Let_def
      split: option.splits promise.splits)

lemma init_inv_step: "init_inv s \<Longrightarrow> init_inv (step e ev s)"
  by (cases ev) (simp_all add: step_def init_inv_enter init_inv_settle)

lemma init_inv_run: "init_inv s \<Longrightarrow> init_inv (run_events e evs s)"
  unfolding run_events_def by (induction evs arbitrary: s) (simp_all add: init_inv_step)

lemma init_inv_once:
  "init_inv s \<Longrightarrow> doInitialize_calls s \<le> 1 \<and> count_list (executed s) CREATE_TABLE \<le> 1"
  by (auto simp: init_inv_def split: option.splits promise.splits)

text \<open>
  C5. Whatever operations enter \<open>initializeDatabase\<close>, and whenever the pending
  initialization ends, \<open>_doInitialize\<close> is invoked at most once on an object and
  \<open>CREATE TABLE\<close> is executed at most once; a caller that enters while the promise is
  pending starts nothing and awaits that promise; once \<open>initialized\<close> is set a call changes
  nothing and succeeds. A caller that runs alone is the events \<open>Call\<close>, \<open>Settle\<close>.
\<close>

theorem initialization_once:
  "doInitialize_calls (run_events e evs (new_Database rows)) \<le> 1 \<and>
   count_list (executed (run_events e evs (new_Database rows))) CREATE_TABLE \<le> 1 \<and>
   (initPromise (run_events e evs (new_Database rows)) = Some Pending \<longrightarrow>
      enter (run_events e evs (new_Database rows)) = run_events e evs (new_Database rows)) \<and>
   (initialized (run_events e evs (new_Database rows)) \<longrightarrow>
      enter (run_events e evs (new_Database rows)) = run_events e evs (new_Database rows) \<and>
      initializeDatabase e (run_events e evs (new_Database rows)) =
        (Inr (), run_events e evs (new_Database rows))) \<and>
   snd (initializeDatabase e (run_events e evs (new_Database rows))) =
     run_events e (evs @ [Call, Settle]) (new_Database rows)"
proof -
  let ?s = "run_events e evs (new_Database rows)"
  have inv: "init_inv ?s" by (rule init_inv_run [OF init_inv_new])
  have a: "enter ?s = ?s" if "initPromise ?s = Some Pending"
    using that inv by (simp add: enter_def)
  have b: "enter ?s = ?s" if "initialized ?s" using that by (simp add: enter_def)
  have c: "initializeDatabase e ?s = (Inr (), ?s)" if "initialized ?s"
    using that by (rule initializeDatabase_done)
  have d: "snd (initializeDatabase e ?s) = run_events e (evs @ [Call, Settle]) (new_Database rows)"
  proof (cases "initialized ?s")
    case True
    then have "initPromise ?s = Some Fulfilled"
      using inv by (auto simp: init_inv_def split: option.splits promise.splits)
    with True show ?thesis
      by (simp add: run_events_def step_def initializeDatabase_def enter_def settle_def)
  next
    case False
    then show ?thesis
      by (simp add: run_events_def step_def initializeDatabase_def Let_def)
  qed
  from init_inv_once [OF inv] a b c d show ?thesis by blast
qed






lemma new_Date_iso: "time_in_range t \<Longrightarrow> new_Date e (SText (iso_string t)) = TimeValue t"
  by (simp add: new_Date_def Date_parse_iso_string)

lemma iso_string_not_empty: "iso_string t \<noteq> []"
  by (simp add: iso_string_def)

text \<open>What reading an inserted user back gives: an absent optional text is \<open>null\<close>.\<close>

definition null_if_absent :: "jsval \<Rightarrow> jsval" where
  "null_if_absent v = (if v = Undefined then Null else v)"

definition read_back :: "User \<Rightarrow> User" where
  "read_back u =
     u\<lparr>phoneNumber := null_if_absent (phoneNumber u),
       universityName := null_if_absent (universityName u),
       universityId := null_if_absent (universityId u),
       program := null_if_absent (program u),
       yearOfStudy := null_if_absent (yearOfStudy u),
       verificationToken := null_if_absent (verificationToken u)\<rparr>"

text \<open>The runtime's JSON gives the user's \<open>collegeData\<close> back, from a text that is not empty.\<close>

definition JSON_lossless :: "env \<Rightarrow> User \<Rightarrow> bool" where
  "JSON_lossless e u =
     (case collegeData u of
        None \<Rightarrow> True
      | Some cd \<Rightarrow> JSON_stringify e cd \<noteq> [] \<and> JSON_parse e (JSON_stringify e cd) = Some cd)"

lemma js_of_bind: "js_of (text_affinity (bind v)) = null_if_absent v"
  by (cases v) (simp_all add: js_of_def text_affinity_def bind_def null_if_absent_def)

lemma null_if_absent_string: "is_string v \<Longrightarrow> null_if_absent v = v"
  by (cases v) (simp_all add: is_string_def null_if_absent_def)

lemma rowToUser_stored:
  assumes ok: "User_ok u" and json: "JSON_lossless e u" and ps: "addUser_params e u = Inr ps"
  shows "rowToUser e (assign ps null_row) = Inr (read_back u)"
proof -
  let ?r = "assign ps null_row"
  obtain t where t: "createdAt u = TimeValue t" "time_in_range t"
    using ok by (cases "createdAt u") (simp_all add: User_ok_def Date_ok_def)
  have req: "null_if_absent (id' u) = id' u" "null_if_absent (fullName u) = fullName u"
    "null_if_absent (universityEmail u) = universityEmail u"
    "null_if_absent (password u) = password u"
    using ok by (simp_all add: User_ok_def null_if_absent_string)
  have strs: "js_of (col_id ?r) = id' u" "js_of (col_fullName ?r) = fullName u"
    "js_of (col_universityEmail ?r) = universityEmail u" "js_of (col_password ?r) = password u"
    "js_of (col_phoneNumber ?r) = null_if_absent (phoneNumber u)"
    "js_of (col_universityName ?r) = null_if_absent (universityName u)"
    "js_of (col_universityId ?r) = null_if_absent (universityId u)"
    "js_of (col_program ?r) = null_if_absent (program u)"
    "js_of (col_yearOfStudy ?r) = null_if_absent (yearOfStudy u)"
    "js_of (col_verificationToken ?r) = null_if_absent (verificationToken u)"
    by (simp_all add: addUser_params_row [OF ps] js_of_bind req)
  have created: "new_Date e (col_createdAt ?r) = createdAt u"
    by (simp add: addUser_params_row [OF ps] t new_Date_iso)
  have verified: "truthy (col_isEmailVerified ?r) = isEmailVerified u"
    by (simp add: addUser_params_row [OF ps] truthy_def bind_bool_def)
  have expiry: "(if truthy (col_verificationTokenExpiry ?r)
      then Some (new_Date e (col_verificationTokenExpiry ?r)) else None) =
      verificationTokenExpiry u"
  proof (cases "verificationTokenExpiry u")
    case None
    then show ?thesis by (simp add: addUser_params_row [OF ps] truthy_def)
  next
    case (Some d)
    with ok obtain x where "d = TimeValue x" "time_in_range x"
      by (cases d) (simp_all add: User_ok_def Date_ok_def)
    with Some show ?thesis
      by (simp add: addUser_params_row [OF ps] truthy_def iso_string_not_empty new_Date_iso)
  qed
  have college: "(case col_collegeData ?r of
              None \<Rightarrow> Inr None
            | Some s \<Rightarrow>
                if s = [] then Inr None
                else (case JSON_parse e s of None \<Rightarrow> Inl SyntaxError | Some cd \<Rightarrow> Inr (Some cd)))
        = Inr (collegeData u)"
    using json
    by (cases "collegeData u") (simp_all add: addUser_params_row [OF ps] JSON_lossless_def)
  have "rowToUser e ?r =
      Inr \<lparr>id' = id' u, fullName = fullName u, universityEmail = universityEmail u,
        password = password u, phoneNumber = null_if_absent (phoneNumber u),
        universityName = null_if_absent (universityName u),
        universityId = null_if_absent (universityId u),
        program = null_if_absent (program u), yearOfStudy = null_if_absent (yearOfStudy u),
        createdAt = createdAt u, isEmailVerified = isEmailVerified u,
        verificationToken = null_if_absent (verificationToken u),
        verificationTokenExpiry = verificationTokenExpiry u, collegeData = collegeData u\<rparr>"
    unfolding rowToUser_def college by (simp only: strs created verified expiry sum.case)
  also have "\<dots> = Inr (read_back u)"
    by (simp add: read_back_def)
  finally show ?thesis .
qed




lemma text_less_irrefl: "\<not> text_less s s"
  by (induction s) simp_all

lemma text_less_trans: "text_less a b \<Longrightarrow> text_less b c \<Longrightarrow> text_less a c"
proof (induction a b arbitrary: c rule: text_less.induct)
  case 1
  then show ?case by simp
next
  case (2 y ys)
  then show ?case by (cases c) simp_all
next
  case (3 x xs)
  then show ?case by simp
next
  case (4 x xs y ys)
  then show ?case by (cases c) auto
qed

lemma sql_less_irrefl: "\<not> sql_less v v"
  by (cases v) (simp_all add: text_less_irrefl)

lemma sql_less_trans: "sql_less a b \<Longrightarrow> sql_less b c \<Longrightarrow> sql_less a c"
  by (cases a; cases b; cases c) (auto intro: text_less_trans)

lemma sql_less_asym: "sql_less a b \<Longrightarrow> \<not> sql_less b a"
  using sql_less_trans [of a b a] sql_less_irrefl [of a] by blast

lemma sorted_insert_desc:
  assumes "sorted_wrt (\<lambda>x y. \<not> sql_less (col_createdAt x) (col_createdAt y)) xs"
  shows "sorted_wrt (\<lambda>x y. \<not> sql_less (col_createdAt x) (col_createdAt y)) (insert_desc r xs)"
  using assms
proof (induction xs)
  case Nil
  then show ?case by simp
next
  case (Cons x xs)
  show ?case
  proof (cases "sql_less (col_createdAt x) (col_createdAt r)")
    case True
    have "\<not> sql_less (col_createdAt r) (col_createdAt y)" if "y \<in> set (x # xs)" for y
    proof
      assume l: "sql_less (col_createdAt r) (col_createdAt y)"
      from sql_less_trans [OF True l] have xy: "sql_less (col_createdAt x) (col_createdAt y)" .
      from that have "y = x \<or> y \<in> set xs" by simp
      then show False
      proof
        assume "y = x"
        with xy sql_less_irrefl show False by simp
      next
        assume "y \<in> set xs"
        with Cons.prems xy show False by simp
      qed
    qed
    with True Cons.prems show ?thesis by simp
  next
    case False
    with Cons show ?thesis by (simp add: set_insert_desc)
  qed
qed

lemma mset_insert_desc: "mset (insert_desc r xs) = add_mset r (mset xs)"
  by (induction xs) simp_all

lemma order_by_fold:
  "sorted_wrt (\<lambda>x y. \<not> sql_less (col_createdAt x) (col_createdAt y)) acc \<Longrightarrow>
   sorted_wrt (\<lambda>x y. \<not> sql_less (col_createdAt x) (col_createdAt y))
     (foldl (\<lambda>acc r. insert_desc r acc) acc rows) \<and>
   mset (foldl (\<lambda>acc r. insert_desc r acc) acc rows) = mset acc + mset rows"
  by (induction rows arbitrary: acc) (simp_all add: sorted_insert_desc mset_insert_desc)

lemma order_by_sorted:
  "sorted_wrt (\<lambda>x y. \<not> sql_less (col_createdAt x) (col_createdAt y)) (order_by_createdAt_desc rows) \<and>
   mset (order_by_createdAt_desc rows) = mset rows"
  using order_by_fold [of "[]" rows] by (simp add: order_by_createdAt_desc_def)

lemma order_by_three:
  assumes "sql_less (col_createdAt ra) (col_createdAt rb)"
    "sql_less (col_createdAt rb) (col_createdAt rc)"
  shows "order_by_createdAt_desc [ra, rb, rc] = [rc, rb, ra]"
  using assms by (simp add: order_by_createdAt_desc_def)

lemma addUser_appends:
  assumes "addUser e s u = (Inr (), s')"
  shows "\<exists>ps. addUser_params e u = Inr ps \<and> users s' = users s @ [assign ps null_row]"
proof -
  from assms obtain ps where "addUser_params e u = Inr ps"
    "sql_insert ps (users s) = Inr (users s')" by (rule addUser_Inr)
  with sql_insert_last [of ps "users s" "users s'"] show ?thesis by blast
qed

text \<open>
  C9, amended. \<open>getAllUsers\<close> decodes all rows of the table, in descending order of the
  stored \<open>createdAt\<close> cell (for the ISO texts \<open>addUser\<close> stores: compared byte by
  byte). After A, B and C are inserted in this order into an empty table, with strictly
  increasing \<open>createdAt\<close> whose years all lie in 0000 to 9999, it returns C, B, A.
\<close>

theorem getAllUsers_order:
  "(fst (initializeDatabase e s) = Inr () \<longrightarrow>
      fst (getAllUsers e s) = map_result (rowToUser e) (order_by_createdAt_desc (users s)) \<and>
      mset (order_by_createdAt_desc (users s)) = mset (users s) \<and>
      sorted_wrt (\<lambda>x y. \<not> sql_less (col_createdAt x) (col_createdAt y))
        (order_by_createdAt_desc (users s))) \<and>
   (users s0 = [] \<and> addUser e s0 a = (Inr (), s1) \<and> addUser e s1 b = (Inr (), s2) \<and>
    addUser e s2 c = (Inr (), s3) \<and> User_ok a \<and> User_ok b \<and> User_ok c \<and>
    JSON_lossless e a \<and> JSON_lossless e b \<and> JSON_lossless e c \<and>
    createdAt a = TimeValue ta \<and> createdAt b = TimeValue tb \<and> createdAt c = TimeValue tc \<and>
    ta < tb \<and> tb < tc \<and> four_digit_year ta \<and> four_digit_year tb \<and> four_digit_year tc \<longrightarrow>
    fst (getAllUsers e s3) = Inr [read_back c, read_back b, read_back a])"
proof (intro conjI impI)
  assume i: "fst (initializeDatabase e s) = Inr ()"
  show "fst (getAllUsers e s) = map_result (rowToUser e) (order_by_createdAt_desc (users s))"
    by (rule getAllUsers_result [OF i])
  show "mset (order_by_createdAt_desc (users s)) = mset (users s)"
    "sorted_wrt (\<lambda>x y. \<not> sql_less (col_createdAt x) (col_createdAt y))
        (order_by_createdAt_desc (users s))"
    using order_by_sorted [of "users s"] by simp_all
next
  assume h: "users s0 = [] \<and> addUser e s0 a = (Inr (), s1) \<and> addUser e s1 b = (Inr (), s2) \<and>
    addUser e s2 c = (Inr (), s3) \<and> User_ok a \<and> User_ok b \<and> User_ok c \<and>
    JSON_lossless e a \<and> JSON_lossless e b \<and> JSON_lossless e c \<and>
    createdAt a = TimeValue ta \<and> createdAt b = TimeValue tb \<and> createdAt c = TimeValue tc \<and>
    ta < tb \<and> tb < tc \<and> four_digit_year ta \<and> four_digit_year tb \<and> four_digit_year tc"
  from h have adds: "addUser e s0 a = (Inr (), s1)" "addUser e s1 b = (Inr (), s2)"
    "addUser e s2 c = (Inr (), s3)" by simp_all
  from addUser_appends [OF adds(1)] obtain pa where pa: "addUser_params e a = Inr pa"
    and u1: "users s1 = users s0 @ [assign pa null_row]" by blast
  from addUser_appends [OF adds(2)] obtain pb where pb: "addUser_params e b = Inr pb"
    and u2: "users s2 = users s1 @ [assign pb null_row]" by blast
  from addUser_appends [OF adds(3)] obtain pc where pc: "addUser_params e c = Inr pc"
    and u3: "users s3 = users s2 @ [assign pc null_row]" by blast
  let ?ra = "assign pa null_row" and ?rb = "assign pb null_row" and ?rc = "assign pc null_row"
  have us: "users s3 = [?ra, ?rb, ?rc]" using h u1 u2 u3 by simp
  have k: "col_createdAt ?ra = SText (iso_string ta)" "col_createdAt ?rb = SText (iso_string tb)"
    "col_createdAt ?rc = SText (iso_string tc)"
    using h by (simp_all add: addUser_params_row [OF pa] addUser_params_row [OF pb]
        addUser_params_row [OF pc])
  have l: "sql_less (col_createdAt ?ra) (col_createdAt ?rb)"
    "sql_less (col_createdAt ?rb) (col_createdAt ?rc)"
    using h by (simp_all add: k iso_string_mono)
  have d: "rowToUser e ?ra = Inr (read_back a)" "rowToUser e ?rb = Inr (read_back b)"
    "rowToUser e ?rc = Inr (read_back c)"
    using h pa pb pc by (simp_all add: rowToUser_stored)
  from h have "addUser e s2 c = (Inr (), s3)" by simp
  from getAllUsers_result [OF addUser_initialized [OF this]]
  show "fst (getAllUsers e s3) = Inr [read_back c, read_back b, read_back a]"
    by (simp add: us order_by_three [OF l] d)
qed

section \<open>A concrete store\<close>

text \<open>
  A \<open>collegeData\<close> and its JSON text, and a runtime that knows this one text, whose
  initialization steps succeed and whose \<open>ALTER TABLE\<close>s fail (the columns exist).
\<close>

definition cs_data :: collegeData where
  "cs_data =
     \<lparr>department = ''Computer Science'', courses = [''CS101'', ''MA102''],
      academicYear = ''2024'', semester = ''1'', advisor = None, gpa = None\<rparr>"

definition cs_json :: string where
  \<open>cs_json = ''{"department":"Computer Science","courses":["CS101","MA102"],"academicYear":"2024","semester":"1"}''\<close>

definition node :: env where
  "node =
     \<lparr>JSON_stringify = (\<lambda>cd. if cd = cs_data then cs_json else ''{}''),
      JSON_parse = (\<lambda>s. if s = cs_json then Some cs_data else None),
      Date_parse_other = (\<lambda>s. Invalid_Date), ensureDataDirectory_ok = True,
      import_sqlite3_ok = True, create_table_ok = True, alter_table_ok = (\<lambda>c. False)\<rparr>"

definition test_user :: User where
  "test_user =
     \<lparr>id' = Str ''u1'', fullName = Str ''Test User'',
      universityEmail = Str ''a@snuchennai.edu.in'', password = Str ''secret'',
      phoneNumber = Undefined, universityName = Str ''SNU'', universityId = Undefined,
      program = Undefined, yearOfStudy = Undefined, createdAt = TimeValue 1700000000123,
      isEmailVerified = False, verificationToken = Str ''tok1'',
      verificationTokenExpiry = Some (TimeValue 1700086400123), collegeData = None\<rparr>"

lemma User_ok_test_user: "User_ok test_user"
  by (simp add: User_ok_def test_user_def is_string_def is_optional_string_def Date_ok_def
      time_in_range_def)

definition test_row :: row where
  "test_row =
     \<lparr>col_id = Some ''u1'', col_fullName = Some ''Test User'',
      col_universityEmail = Some ''a@snuchennai.edu.in'', col_password = Some ''secret'',
      col_phoneNumber = None, col_universityName = Some ''SNU'', col_universityId = None,
      col_program = None, col_yearOfStudy = None, col_isEmailVerified = SInt 0,
      col_verificationToken = Some ''tok1'',
      col_verificationTokenExpiry = SText (iso_string 1700086400123),
      col_collegeData = None, col_createdAt = SText (iso_string 1700000000123)\<rparr>"

definition ready :: "row list \<Rightarrow> sql list \<Rightarrow> Database" where
  "ready rows log =
     \<lparr>initialized = True, initPromise = Some Fulfilled, users = rows, doInitialize_calls = 1,
      executed = [CREATE_TABLE, ALTER_TABLE K_isEmailVerified, ALTER_TABLE K_verificationToken,
        ALTER_TABLE K_verificationTokenExpiry, ALTER_TABLE K_collegeData] @ log\<rparr>"

lemma initialize_new: "initializeDatabase node (new_Database rows) = (Inr (), ready rows [])"
  by (simp add: initializeDatabase_def new_Database_def settle_def enter_def doInitialize_def
      try_alter_def run_logged_def node_def ready_def Let_def)

lemma initialize_ready: "initializeDatabase e (ready rows log) = (Inr (), ready rows log)"
  by (simp add: initializeDatabase_def ready_def)

lemma params_test_user: "assign (projr (addUser_params node test_user)) null_row = test_row"
  by (simp add: addUser_params_def test_user_def toISOString_def assign_def null_row_def
      test_row_def bind_def bind_bool_def text_affinity_def)

lemma addUser_test_user:
  "addUser node (new_Database []) test_user = (Inr (), ready [test_row] [INSERT])"
  by (simp add: addUser_def initialize_new addUser_params_def test_user_def toISOString_def
      sql_insert_def assign_def null_row_def test_row_def bind_def bind_bool_def
      text_affinity_def not_null_ok_def ready_def run_logged_def)

text \<open>On the store that holds the test user: a second user with the same email.\<close>

theorem email_unique_witness:
  "fst (addUser node (ready [test_row] [INSERT]) (test_user\<lparr>id' := Str ''u2''\<rparr>)) = Inl SQLITE_CONSTRAINT \<and>
   users (snd (addUser node (ready [test_row] [INSERT]) (test_user\<lparr>id' := Str ''u2''\<rparr>))) = [test_row] \<and>
   fst (emailExists node (ready [test_row] [INSERT]) ''a@snuchennai.edu.in'') = Inr True"
proof -
  have ok: "User_ok (test_user\<lparr>id' := Str ''u2''\<rparr>)"
    using User_ok_test_user by (simp add: User_ok_def is_string_def)
  show ?thesis
    using email_unique [OF addUser_test_user _ ok, of ]
    by (simp add: test_user_def ready_def)
qed

definition other_row :: row where
  "other_row =
     \<lparr>col_id = Some ''u2'', col_fullName = Some ''Second User'',
      col_universityEmail = Some ''b@snuchennai.edu.in'', col_password = Some ''hunter2'',
      col_phoneNumber = Some ''555-0100'', col_universityName = None, col_universityId = None,
      col_program = None, col_yearOfStudy = None, col_isEmailVerified = SInt 1,
      col_verificationToken = None, col_verificationTokenExpiry = SNull,
      col_collegeData = None, col_createdAt = SText (iso_string 1700000500000)\<rparr>"

lemma ready_simps:
  "users (ready rows log) = rows" "initialized (ready rows log)"
  "run_logged q (ready rows log) = ready rows (log @ [q])"
  "(ready rows log)\<lparr>users := rows'\<rparr> = ready rows' log"
  by (simp_all add: ready_def run_logged_def)

lemma executed_ready:
  "executed (ready rows log) =
     [CREATE_TABLE, ALTER_TABLE K_isEmailVerified, ALTER_TABLE K_verificationToken,
      ALTER_TABLE K_verificationTokenExpiry, ALTER_TABLE K_collegeData] @ log"
  by (simp add: ready_def)

lemma updateUser_verify:
  "updateUser node (ready [test_row, other_row] []) ''u1'' [E_isEmailVerified (Some True)] =
   (Inr (), ready [test_row\<lparr>col_isEmailVerified := SInt 1\<rparr>, other_row] [UPDATE [K_isEmailVerified]])"
  by (simp add: updateUser_def initialize_ready ready_simps sql_update_def assign_def
      bind_bool_def test_row_def other_row_def not_null_ok_def clash_def Let_def
      upt_rec [of 0] upt_rec [of 1] upt_rec [of 2])

text \<open>On two rows: verifying the first user keeps the token and the other row.\<close>

theorem updateUser_frame_witness:
  "length (users (snd (updateUser node (ready [test_row, other_row] []) ''u1''
      [E_isEmailVerified (Some True)]))) = 2 \<and>
   users (snd (updateUser node (ready [test_row, other_row] []) ''u1''
      [E_isEmailVerified (Some True)])) ! 1 = other_row \<and>
   get_col K_verificationToken (users (snd (updateUser node (ready [test_row, other_row] []) ''u1''
      [E_isEmailVerified (Some True)])) ! 0) = SText ''tok1'' \<and>
   get_col K_isEmailVerified (users (snd (updateUser node (ready [test_row, other_row] []) ''u1''
      [E_isEmailVerified (Some True)])) ! 0) = SInt 1"
proof -
  let ?s = "ready [test_row, other_row] []"
  let ?u = "[E_isEmailVerified (Some True)]"
  note f = updateUser_frame [of node ?s "''u1''" ?u]
  note g = f [THEN conjunct2, rule_format]
  have l: "length (users (snd (updateUser node ?s ''u1'' ?u))) = 2"
    using f by (simp add: ready_simps)
  have o: "users (snd (updateUser node ?s ''u1'' ?u)) ! 1 = other_row"
    using g [of 1, THEN conjunct1] by (simp add: ready_simps other_row_def)
  have "get_col K_verificationToken (users (snd (updateUser node ?s ''u1'' ?u)) ! 0) =
      get_col K_verificationToken (users ?s ! 0)"
    by (rule g [of 0, THEN conjunct2, rule_format]) (simp_all add: ready_simps)
  then have t: "get_col K_verificationToken (users (snd (updateUser node ?s ''u1'' ?u)) ! 0) = SText ''tok1''"
    by (simp add: ready_simps test_row_def cell_def)
  have v: "get_col K_isEmailVerified (users (snd (updateUser node ?s ''u1'' ?u)) ! 0) = SInt 1"
    by (simp add: updateUser_verify ready_simps)
  from l o t v show ?thesis by simp
qed


definition test_user_read :: User where
  "test_user_read =
     test_user\<lparr>phoneNumber := Null, universityId := Null, program := Null, yearOfStudy := Null\<rparr>"

lemma rowToUser_test_row: "rowToUser node test_row = Inr test_user_read"
  by (simp add: rowToUser_def test_row_def test_user_read_def test_user_def js_of_def truthy_def
      new_Date_iso time_in_range_def iso_string_not_empty)



text \<open>The token is found, also with an expiry in 1970; an unknown token is not.\<close>

theorem findUserByVerificationToken_exact_witness:
  "fst (findUserByVerificationToken node (ready [other_row, test_row] []) ''tok1'') =
     Inr (Some test_user_read) \<and>
   verificationToken test_user_read = Str ''tok1'' \<and>
   fst (findUserByVerificationToken node (ready [other_row, test_row] []) ''tok2'') = Inr None \<and>
   fst (findUserByVerificationToken node
          (with_expiry (\<lambda>r. SText (iso_string 0)) (ready [other_row, test_row] [])) ''tok1'') \<noteq>
     Inr None"
proof -
  let ?s = "ready [other_row, test_row] []"
  have i: "fst (initializeDatabase node ?s) = Inr ()" by (simp add: initialize_ready)
  have r: "fst (findUserByVerificationToken node ?s ''tok1'') = Inr (Some test_user_read)"
    by (simp add: findUserByVerificationToken_def get_user_def initialize_ready ready_simps
        sql_get_def test_row_def [THEN arg_cong, of col_verificationToken] other_row_def
        rowToUser_test_row)
  have n: "\<forall>r \<in> set (users ?s). col_verificationToken r \<noteq> Some ''tok2''"
    by (simp add: ready_simps test_row_def other_row_def)
  note t1 = findUserByVerificationToken_exact [OF i, of "''tok1''"]
  note t2 = findUserByVerificationToken_exact [OF i, of "''tok2''"]
  from t1 r have a: "verificationToken test_user_read = Str ''tok1''" by blast
  from t2 n have b: "fst (findUserByVerificationToken node ?s ''tok2'') = Inr None" by blast
  from t1 have "fst (findUserByVerificationToken node
      (with_expiry (\<lambda>r. SText (iso_string 0)) ?s) ''tok1'') = Inr None \<longleftrightarrow>
      fst (findUserByVerificationToken node ?s ''tok1'') = Inr None" by blast
  with r a b show ?thesis by simp
qed


lemma run_events_new:
  "run_events node [Call, Call] (new_Database []) =
     (new_Database [])\<lparr>initPromise := Some Pending, doInitialize_calls := 1\<rparr>"
  "run_events node [Call, Call, Settle, Call] (new_Database []) = ready [] []"
  by (simp_all add: run_events_def step_def enter_def settle_def doInitialize_def try_alter_def
      run_logged_def new_Database_def node_def ready_def Let_def)

text \<open>Two callers enter before the initialization ends, a third after it.\<close>

theorem initialization_once_witness:
  "doInitialize_calls (run_events node [Call, Call, Settle, Call] (new_Database [])) \<le> 1 \<and>
   count_list (executed (run_events node [Call, Call, Settle, Call] (new_Database []))) CREATE_TABLE \<le> 1 \<and>
   initPromise (run_events node [Call, Call] (new_Database [])) = Some Pending \<and>
   enter (run_events node [Call, Call] (new_Database [])) =
     run_events node [Call, Call] (new_Database []) \<and>
   initialized (run_events node [Call, Call, Settle, Call] (new_Database [])) \<and>
   initializeDatabase node (run_events node [Call, Call, Settle, Call] (new_Database [])) =
     (Inr (), run_events node [Call, Call, Settle, Call] (new_Database []))"
proof -
  note a = initialization_once [of node "[Call, Call, Settle, Call]" "[]"]
  note b = initialization_once [of node "[Call, Call]" "[]"]
  have p: "initPromise (run_events node [Call, Call] (new_Database [])) = Some Pending"
    by (simp add: run_events_new)
  have q: "initialized (run_events node [Call, Call, Settle, Call] (new_Database []))"
    by (simp add: run_events_new ready_simps)
  from a b p q show ?thesis by blast
qed


lemma year_a: "YearFromTime 1700000000123 = 2023"
  by (simp add: YearFromTime_def YearFromDay_def Day_def year_up_step year_up_stop DayFromYear_def)

lemma fields_a:
  "MonthFromTime 1700000000123 = 10" "DateFromTime 1700000000123 = 14"
  "HourFromTime 1700000000123 = 22" "MinFromTime 1700000000123 = 13"
  "SecFromTime 1700000000123 = 20" "msFromTime 1700000000123 = 123"
  by (simp_all add: MonthFromTime_def DateFromTime_def year_a
      DayWithinYear_def Day_def DayFromYear_def InLeapYear_def month_of_def month_start_def
      HourFromTime_def MinFromTime_def SecFromTime_def msFromTime_def)

lemma iso_a: "iso_string 1700000000123 = ''2023-11-14T22:13:20.123Z''"
  by (simp add: iso_string_def iso_year_def year_a fields_a pad_2 pad_3 pad_4 digit_table
      del: pad.simps)

definition student :: User where
  "student =
     \<lparr>id' = Str ''u3'', fullName = Str ''Third User'',
      universityEmail = Str ''c@snuchennai.edu.in'', password = Str ''pass3'',
      phoneNumber = Str ''555-0199'', universityName = Undefined, universityId = Undefined,
      program = Undefined, yearOfStudy = Str ''2'', createdAt = TimeValue 1700001000000,
      isEmailVerified = True, verificationToken = Undefined,
      verificationTokenExpiry = None, collegeData = Some cs_data\<rparr>"

lemma User_ok_student: "User_ok student"
  by (simp add: User_ok_def student_def is_string_def is_optional_string_def Date_ok_def
      time_in_range_def)

lemma JSON_lossless_student: "JSON_lossless node student"
  by (simp add: JSON_lossless_def student_def node_def cs_json_def)

lemma JSON_lossless_test_user: "JSON_lossless node test_user"
  by (simp add: JSON_lossless_def test_user_def)




definition second_user :: User where
  "second_user =
     \<lparr>id' = Str ''u2'', fullName = Str ''Second User'',
      universityEmail = Str ''b@snuchennai.edu.in'', password = Str ''hunter2'',
      phoneNumber = Str ''555-0100'', universityName = Undefined, universityId = Undefined,
      program = Undefined, yearOfStudy = Undefined, createdAt = TimeValue 1700000500000,
      isEmailVerified = True, verificationToken = Undefined,
      verificationTokenExpiry = None, collegeData = None\<rparr>"

definition student_row :: row where
  "student_row =
     \<lparr>col_id = Some ''u3'', col_fullName = Some ''Third User'',
      col_universityEmail = Some ''c@snuchennai.edu.in'', col_password = Some ''pass3'',
      col_phoneNumber = Some ''555-0199'', col_universityName = None, col_universityId = None,
      col_program = None, col_yearOfStudy = Some ''2'', col_isEmailVerified = SInt 1,
      col_verificationToken = None, col_verificationTokenExpiry = SNull,
      col_collegeData = Some cs_json, col_createdAt = SText (iso_string 1700001000000)\<rparr>"

text \<open>The same student, created on the first day of the year 10000.\<close>

definition far_user :: User where
  "far_user = student\<lparr>createdAt := TimeValue 253402300800000\<rparr>"

definition far_row :: row where
  "far_row = student_row\<lparr>col_createdAt := SText (iso_string 253402300800000)\<rparr>"

lemma User_ok_second_user: "User_ok second_user"
  by (simp add: User_ok_def second_user_def is_string_def is_optional_string_def Date_ok_def
      time_in_range_def)

lemma User_ok_far_user: "User_ok far_user"
  by (simp add: User_ok_def far_user_def student_def is_string_def is_optional_string_def
      Date_ok_def time_in_range_def)

lemma JSON_lossless_second_user: "JSON_lossless node second_user"
  by (simp add: JSON_lossless_def second_user_def)

lemma JSON_lossless_far_user: "JSON_lossless node far_user"
  using JSON_lossless_student by (simp add: JSON_lossless_def far_user_def)

lemma addUser_second_user:
  "addUser node (ready [test_row] [INSERT]) second_user =
     (Inr (), ready [test_row, other_row] [INSERT, INSERT])"
  by (simp add: addUser_def initialize_ready addUser_params_def second_user_def toISOString_def
      sql_insert_def assign_def null_row_def test_row_def other_row_def bind_def bind_bool_def
      text_affinity_def not_null_ok_def clash_def ready_simps)

lemma addUser_third:
  "addUser node (ready [test_row, other_row] [INSERT, INSERT]) student =
     (Inr (), ready [test_row, other_row, student_row] [INSERT, INSERT, INSERT])"
  "addUser node (ready [test_row, other_row] [INSERT, INSERT]) far_user =
     (Inr (), ready [test_row, other_row, far_row] [INSERT, INSERT, INSERT])"
  by (simp_all add: addUser_def initialize_ready addUser_params_def student_def far_user_def
      toISOString_def sql_insert_def assign_def null_row_def test_row_def other_row_def
      student_row_def far_row_def bind_def bind_bool_def text_affinity_def not_null_ok_def
      clash_def ready_simps node_def)

lemma years_2023:
  "four_digit_year 1700000000123" "four_digit_year 1700000500000" "four_digit_year 1700001000000"
  by (simp_all add: four_digit_year_def YearFromTime_def YearFromDay_def Day_def year_up_step
      year_up_stop DayFromYear_def)

text \<open>Three users created in November 2023 are listed latest first.\<close>

theorem getAllUsers_order_witness:
  "fst (getAllUsers node (ready [test_row, other_row, student_row] [INSERT, INSERT, INSERT])) =
     Inr [read_back student, read_back second_user, read_back test_user] \<and>
   mset (order_by_createdAt_desc [test_row, other_row, student_row]) =
     mset [test_row, other_row, student_row]"
proof -
  let ?s3 = "ready [test_row, other_row, student_row] [INSERT, INSERT, INSERT]"
  have c: "createdAt test_user = TimeValue 1700000000123"
    "createdAt second_user = TimeValue 1700000500000"
    "createdAt student = TimeValue 1700001000000"
    by (simp_all add: test_user_def second_user_def student_def)
  have n: "users (new_Database []) = []" by (simp add: new_Database_def)
  have i: "fst (initializeDatabase node ?s3) = Inr ()" by (simp add: initialize_ready)
  note t = getAllUsers_order [of node ?s3 "new_Database []" test_user "ready [test_row] [INSERT]"
      second_user "ready [test_row, other_row] [INSERT, INSERT]" student ?s3
      1700000000123 1700000500000 1700001000000]
  from t i have "mset (order_by_createdAt_desc (users ?s3)) = mset (users ?s3)" by blast
  then have m: "mset (order_by_createdAt_desc [test_row, other_row, student_row]) =
     mset [test_row, other_row, student_row]" by (simp only: ready_simps)
  from t n addUser_test_user addUser_second_user addUser_third(1) User_ok_test_user
    User_ok_second_user User_ok_student JSON_lossless_test_user JSON_lossless_second_user
    JSON_lossless_student c years_2023
  have "fst (getAllUsers node ?s3) = Inr [read_back student, read_back second_user, read_back test_user]"
    by simp
  with m show ?thesis by simp
qed

lemma year_far: "YearFromTime 253402300800000 = 10000"
  by (simp add: YearFromTime_def YearFromDay_def Day_def year_up_step year_up_stop DayFromYear_def)

lemma fields_far:
  "MonthFromTime 253402300800000 = 0" "DateFromTime 253402300800000 = 1"
  "HourFromTime 253402300800000 = 0" "MinFromTime 253402300800000 = 0"
  "SecFromTime 253402300800000 = 0" "msFromTime 253402300800000 = 0"
  by (simp_all add: MonthFromTime_def DateFromTime_def year_far
      DayWithinYear_def Day_def DayFromYear_def InLeapYear_def month_of_def month_start_def
      HourFromTime_def MinFromTime_def SecFromTime_def msFromTime_def)

lemma iso_far: "iso_string 253402300800000 = ''+010000-01-01T00:00:00.000Z''"
  by (simp add: iso_string_def iso_year_def year_far fields_far pad_2 pad_3 pad_6 digit_table
      del: pad.simps)

lemma year_b: "YearFromTime 1700000500000 = 2023"
  by (simp add: YearFromTime_def YearFromDay_def Day_def year_up_step year_up_stop DayFromYear_def)

lemma fields_b:
  "MonthFromTime 1700000500000 = 10" "DateFromTime 1700000500000 = 14"
  "HourFromTime 1700000500000 = 22" "MinFromTime 1700000500000 = 21"
  "SecFromTime 1700000500000 = 40" "msFromTime 1700000500000 = 0"
  by (simp_all add: MonthFromTime_def DateFromTime_def year_b
      DayWithinYear_def Day_def DayFromYear_def InLeapYear_def month_of_def month_start_def
      HourFromTime_def MinFromTime_def SecFromTime_def msFromTime_def)

lemma iso_b: "iso_string 1700000500000 = ''2023-11-14T22:21:40.000Z''"
  by (simp add: iso_string_def iso_year_def year_b fields_b pad_2 pad_3 pad_4 digit_table
      del: pad.simps)

lemma order_far: "order_by_createdAt_desc [test_row, other_row, far_row] = [other_row, test_row, far_row]"
  by (simp add: order_by_createdAt_desc_def test_row_def [THEN arg_cong, of col_createdAt]
      other_row_def [THEN arg_cong, of col_createdAt] far_row_def [THEN arg_cong, of col_createdAt]
      iso_a iso_b iso_far)

lemma rowToUser_rows:
  "rowToUser node test_row = Inr (read_back test_user)"
  "rowToUser node other_row = Inr (read_back second_user)"
  "rowToUser node far_row = Inr (read_back far_user)"
  by (simp_all add: rowToUser_def test_row_def other_row_def far_row_def student_row_def
      read_back_def null_if_absent_def test_user_def second_user_def far_user_def student_def
      js_of_def truthy_def new_Date_iso time_in_range_def iso_string_not_empty node_def cs_json_def)

text \<open>When the last user is created in the year 10000, it is listed last.\<close>

theorem getAllUsers_order_counterexample:
  "addUser node (new_Database []) test_user = (Inr (), ready [test_row] [INSERT]) \<and>
   addUser node (ready [test_row] [INSERT]) second_user =
     (Inr (), ready [test_row, other_row] [INSERT, INSERT]) \<and>
   addUser node (ready [test_row, other_row] [INSERT, INSERT]) far_user =
     (Inr (), ready [test_row, other_row, far_row] [INSERT, INSERT, INSERT]) \<and>
   createdAt test_user = TimeValue 1700000000123 \<and>
   createdAt second_user = TimeValue 1700000500000 \<and>
   createdAt far_user = TimeValue 253402300800000 \<and>
   User_ok test_user \<and> User_ok second_user \<and> User_ok far_user \<and>
   fst (getAllUsers node (ready [test_row, other_row, far_row] [INSERT, INSERT, INSERT])) =
     Inr [read_back second_user, read_back test_user, read_back far_user] \<and>
   read_back far_user \<noteq> read_back second_user"
proof -
  have c: "createdAt test_user = TimeValue 1700000000123"
    "createdAt second_user = TimeValue 1700000500000"
    "createdAt far_user = TimeValue 253402300800000"
    by (simp_all add: test_user_def second_user_def far_user_def)
  have g: "fst (getAllUsers node (ready [test_row, other_row, far_row] [INSERT, INSERT, INSERT])) =
     Inr [read_back second_user, read_back test_user, read_back far_user]"
    by (simp add: getAllUsers_def initialize_ready ready_simps order_far rowToUser_rows)
  have "id' (read_back far_user) \<noteq> id' (read_back second_user)"
    by (simp add: read_back_def far_user_def student_def second_user_def)
  then have d: "read_back far_user \<noteq> read_back second_user" by auto
  from c g d addUser_test_user addUser_second_user addUser_third(2) User_ok_test_user
    User_ok_second_user User_ok_far_user
  show ?thesis by simp
qed

end
